theory Spec2Isabelle
  imports Main "HOL-Library.Word" "HOL-Library.Sublist" "HOL-Library.Char_ord"
    "HOL-Library.List_Lexorder"
begin

section \<open>Data model of \<^verbatim>\<open>d2/service.go\<close>\<close>

text \<open>
  The Go errors that the service distinguishes. \<^verbatim>\<open>ErrCRCFileNotFound\<close> is the sentinel
  compared with \<^verbatim>\<open>==\<close> in \<^verbatim>\<open>getFilesToPatch\<close>; \<^verbatim>\<open>ErrNotExist\<close> stands for the
  errors on which \<^verbatim>\<open>os.IsNotExist\<close> answers true; the others are opaque failures of
  the disk, of the remote file store, of the configuration store and of the process
  launcher. \<^verbatim>\<open>ErrCleanup\<close> is the compound error
  \<^verbatim>\<open>fmt.Errorf("Error de limpieza: %s : %s", patchErr, err)\<close>.
\<close>

datatype error =
    ErrCRCFileNotFound
  | ErrNotExist
  | ErrIO
  | ErrTransport
  | ErrConfig
  | ErrLaunch
  | ErrCleanup error error

definition os_IsNotExist :: "error \<Rightarrow> bool" where
  "os_IsNotExist e = (e = ErrNotExist)"

text \<open>
  \<^verbatim>\<open>type PatchFile struct\<close>. \<^verbatim>\<open>ContentLength\<close> is an \<^verbatim>\<open>int64\<close>: a 64-bit word whose
  addition wraps as Go's does. \<^verbatim>\<open>LastModified\<close> (a \<^verbatim>\<open>time.Time\<close>) is never read by
  the service and is kept as a number of seconds.
\<close>

record PatchFile =
  Name :: string
  CRC :: string
  LastModified :: int
  ContentLength :: "64 word"
  IgnoreCRC :: bool
  Deprecated :: bool

record Manifest =
  Files :: "PatchFile list"

text \<open>\<^verbatim>\<open>type Action string\<close> with its two allowed values.\<close>

datatype Action = ActionDownload | ActionDelete

fun Action_string :: "Action \<Rightarrow> string" where
  "Action_string ActionDownload = ''descargar''"
| "Action_string ActionDelete = ''eliminar''"

record PatchAction =
  Action :: Action
  File :: PatchFile
  D2Path :: string
  LocalCRC :: string

text \<open>
  \<^verbatim>\<open>storage.Game\<close>, \<^verbatim>\<open>storage.Config\<close> and \<^verbatim>\<open>config.GameMods\<close>: the type declarations
  are not part of the sources; the fields are the ones the service and
  \<^verbatim>\<open>config.UpdateGameRequest\<close> use. \<^verbatim>\<open>Instances\<close> and \<^verbatim>\<open>LaunchDelay\<close> are Go \<^verbatim>\<open>int\<close>s, 64-bit
  words read as signed numbers (\<open>sint\<close>, \<open><s\<close>): subtraction and multiplication wrap
  around as Go's do.
\<close>

record Game =
  ID :: string
  Location :: string
  Instances :: "64 word"
  OverrideBHCfg :: bool
  Flags :: "string list"
  HDVersion :: string
  MaphackVersion :: string

record Config =
  Games :: "Game list"
  LaunchDelay :: "64 word"

record GameMods =
  HD :: "string list"
  Maphack :: "string list"

text \<open>\<^verbatim>\<open>type game struct\<close>: a running process.\<close>

record game =
  PID :: int
  GameID :: string

text \<open>
  An entry of the patch-file display model, the \<^verbatim>\<open>File\<close> object that
  \<^verbatim>\<open>addFilesToModel\<close> fills (its declaration in \<^verbatim>\<open>filemodel.go\<close> is not part of the
  sources).
\<close>

record FileItem =
  item_Name :: string
  item_D2Path :: string
  item_RemoteCRC :: string
  item_LocalCRC :: string
  item_FileAction :: string

text \<open>
  The mutable fields of \<^verbatim>\<open>type service struct\<close>: the cache of the available mods, the
  running processes and the patch-file display model.
\<close>

record service =
  availableMods :: "GameMods option"
  runningGames :: "game list"
  patchFileModel :: "FileItem list"

text \<open>
  What \<^verbatim>\<open>Exec\<close> does to the outside: it calls \<^verbatim>\<open>time.Sleep\<close> with a \<^verbatim>\<open>time.Duration\<close>, an
  \<^verbatim>\<open>int64\<close> number of nanoseconds (a duration that is not positive does not sleep), and it
  calls \<^verbatim>\<open>launch\<close>.
\<close>

datatype event = Sleep "64 word" | Launch string "string list"

section \<open>The disk and the operating system calls\<close>

text \<open>
  An install directory is a flat list of entries, a file name with the file's content;
  the first entry of a name is the file. The disk gives the directory at each install
  path. A path \<^verbatim>\<open>localizePath(fmt.Sprintf("%s/%s", dir, name))\<close> of the source is the pair
  of the directory and the entry name (\<^verbatim>\<open>localizePath\<close> only adapts the separator to the
  operating system).
\<close>

type_synonym directory = "(string \<times> string) list"

type_synonym disk = "string \<Rightarrow> directory"

text \<open>
  Every system call can fail for reasons outside the program (permissions, a locked
  file, a full disk). The calls that the operating system refuses are a parameter of the
  environment, so that every theorem holds whatever the system refuses.
\<close>

datatype sysop =
    OpStat string string
  | OpOpen string string
  | OpRemove string string
  | OpCreate string string
  | OpWrite string string
  | OpRename string string
  | OpReadDir string

text \<open>
  The collaborators of the service that are read and never written:
  \<^item> the system calls that are refused;
  \<^item> the checksum of a content (\<^verbatim>\<open>crc.go\<close> is not part of the sources; the value is the
    hexadecimal CRC-32 of the bytes);
  \<^item> the remote file store behind \<^verbatim>\<open>hiddengamersdiabloClient.GetFile\<close>, read to the end
    by \<^verbatim>\<open>ioutil.ReadAll\<close> or \<^verbatim>\<open>io.Copy\<close>;
  \<^item> \<^verbatim>\<open>json.Unmarshal\<close> into a \<^verbatim>\<open>Manifest\<close>;
  \<^item> \<^verbatim>\<open>hiddengamersdiabloClient.GetAvailableMods\<close>, read and unmarshalled;
  \<^item> \<^verbatim>\<open>configService.Read\<close>;
  \<^item> \<^verbatim>\<open>validate113cVersion\<close>, \<^verbatim>\<open>ModHDIdentifier\<close> and \<^verbatim>\<open>ModMaphackIdentifier\<close>, which are
    declared in files that are not part of the sources;
  \<^item> \<^verbatim>\<open>launch\<close>, whose outcome may depend on everything \<^verbatim>\<open>Exec\<close> has done before.
\<close>

record env =
  denied :: "sysop \<Rightarrow> bool"
  checksum :: "string \<Rightarrow> string"
  GetFile :: "string \<Rightarrow> error + string"
  json_Unmarshal :: "string \<Rightarrow> error + Manifest"
  GetAvailableMods :: "error + GameMods"
  configRead :: "error + Config"
  validate113cVersion :: "disk \<Rightarrow> string \<Rightarrow> error + bool"
  ModHDIdentifier :: string
  ModMaphackIdentifier :: string
  launch :: "event list \<Rightarrow> string \<Rightarrow> string list \<Rightarrow> error + int"

definition lookup :: "disk \<Rightarrow> string \<Rightarrow> string \<Rightarrow> string option" where
  "lookup d dir name = map_of (d dir) name"

definition write_file :: "disk \<Rightarrow> string \<Rightarrow> string \<Rightarrow> string \<Rightarrow> disk" where
  "write_file d dir name content = d(dir := (name, content) # filter (\<lambda>e. fst e \<noteq> name) (d dir))"

definition remove_file :: "disk \<Rightarrow> string \<Rightarrow> string \<Rightarrow> disk" where
  "remove_file d dir name = d(dir := filter (\<lambda>e. fst e \<noteq> name) (d dir))"

text \<open>\<^verbatim>\<open>os.Stat\<close>, of which the source only reads the error.\<close>

definition os_Stat :: "env \<Rightarrow> disk \<Rightarrow> string \<Rightarrow> string \<Rightarrow> error option" where
  "os_Stat E d dir name =
     (if denied E (OpStat dir name) then Some ErrIO
      else if lookup d dir name = None then Some ErrNotExist
      else None)"

text \<open>\<^verbatim>\<open>os.Remove\<close>: removing a file that does not exist is an error.\<close>

definition os_Remove :: "env \<Rightarrow> disk \<Rightarrow> string \<Rightarrow> string \<Rightarrow> error option \<times> disk" where
  "os_Remove E d dir name =
     (if denied E (OpRemove dir name) then (Some ErrIO, d)
      else if lookup d dir name = None then (Some ErrNotExist, d)
      else (None, remove_file d dir name))"

text \<open>
  \<^verbatim>\<open>os.Rename\<close>: the source file must exist; a file at the new name is replaced.
\<close>

definition os_Rename :: "env \<Rightarrow> disk \<Rightarrow> string \<Rightarrow> string \<Rightarrow> string \<Rightarrow> error option \<times> disk" where
  "os_Rename E d dir old new =
     (if denied E (OpRename dir old) then (Some ErrIO, d)
      else case lookup d dir old of
        None \<Rightarrow> (Some ErrNotExist, d)
      | Some c \<Rightarrow> (None, if new = old then d else write_file (remove_file d dir old) dir new c))"

text \<open>
  \<^verbatim>\<open>ioutil.ReadDir\<close>: the names of the directory's entries, sorted by file name
  (byte-wise, which is the lexicographic order on \<^typ>\<open>string\<close>).
\<close>

definition ioutil_ReadDir :: "env \<Rightarrow> disk \<Rightarrow> string \<Rightarrow> error + string list" where
  "ioutil_ReadDir E d dir =
     (if denied E (OpReadDir dir) then Inl ErrIO
      else Inr (sort (remdups (map fst (d dir)))))"

text \<open>
  Modelled from the spec: \<^verbatim>\<open>hashCRC32\<close> (\<^verbatim>\<open>crc.go\<close> is not part of the sources). The spec's
  contract is \<^verbatim>\<open>checksum(path) -> (value, ErrorKind)\<close>, where \<^verbatim>\<open>NotFound\<close> is a
  first-class outcome distinguished from an I/O failure. As in Go the function returns
  the pair of a value and an error; with an error the value is the empty string.
\<close>

definition hashCRC32 :: "env \<Rightarrow> disk \<Rightarrow> string \<Rightarrow> string \<Rightarrow> string \<times> error option" where
  "hashCRC32 E d dir name =
     (if denied E (OpOpen dir name) then ([], Some ErrIO)
      else case lookup d dir name of
        None \<Rightarrow> ([], Some ErrCRCFileNotFound)
      | Some c \<Rightarrow> (checksum E c, None))"

section \<open>The manifest diff: \<^verbatim>\<open>getFilesToPatch\<close>\<close>

definition fileExistsOnDisk :: "env \<Rightarrow> disk \<Rightarrow> string \<Rightarrow> string \<Rightarrow> error + bool" where
  "fileExistsOnDisk E d fileName path =
     (case os_Stat E d path fileName of
        Some err \<Rightarrow> if os_IsNotExist err then Inr False else Inl err
      | None \<Rightarrow> Inr True)"

text \<open>
  The inner loop over \<^verbatim>\<open>filesToIgnore\<close>, run only when the slice is neither nil nor
  empty.
\<close>

definition ignored :: "string list \<Rightarrow> string \<Rightarrow> bool" where
  "ignored filesToIgnore name = (filesToIgnore \<noteq> [] \<and> list_ex (\<lambda>i. name = i) filesToIgnore)"

text \<open>
  The loop of \<^verbatim>\<open>getFilesToPatch\<close>, with its two accumulators \<^verbatim>\<open>shouldPatch\<close> and
  \<^verbatim>\<open>totalContentLength\<close>. An error return gives up both.
\<close>

fun getFilesToPatch_loop ::
  "env \<Rightarrow> disk \<Rightarrow> string \<Rightarrow> string list \<Rightarrow> PatchFile list \<Rightarrow> PatchAction list \<Rightarrow> 64 word
     \<Rightarrow> error + (PatchAction list \<times> 64 word)" where
  "getFilesToPatch_loop E d d2path filesToIgnore [] shouldPatch tcl = Inr (shouldPatch, tcl)"
| "getFilesToPatch_loop E d d2path filesToIgnore (f # files) shouldPatch tcl =
     (if ignored filesToIgnore (Name f)
      then getFilesToPatch_loop E d d2path filesToIgnore files shouldPatch tcl
      else if Deprecated f then
        (case fileExistsOnDisk E d (Name f) d2path of
           Inl err \<Rightarrow> Inl err
         | Inr exists \<Rightarrow>
             if exists then
               (case hashCRC32 E d d2path (Name f) of
                  (hashed, Some err) \<Rightarrow> Inl err
                | (hashed, None) \<Rightarrow>
                    getFilesToPatch_loop E d d2path filesToIgnore files
                      (shouldPatch @ [\<lparr>Action = ActionDelete, File = f, D2Path = d2path,
                                       LocalCRC = hashed\<rparr>]) tcl)
             else getFilesToPatch_loop E d d2path filesToIgnore files shouldPatch tcl)
      else
        (case hashCRC32 E d d2path (Name f) of
           (hashed, Some err) \<Rightarrow>
             if err = ErrCRCFileNotFound
             then getFilesToPatch_loop E d d2path filesToIgnore files
                    (shouldPatch @ [\<lparr>Action = ActionDownload, File = f, D2Path = d2path,
                                     LocalCRC = hashed\<rparr>]) (tcl + ContentLength f)
             else Inl err
         | (hashed, None) \<Rightarrow>
             if IgnoreCRC f
             then getFilesToPatch_loop E d d2path filesToIgnore files shouldPatch tcl
             else if hashed \<noteq> CRC f
             then getFilesToPatch_loop E d d2path filesToIgnore files
                    (shouldPatch @ [\<lparr>Action = ActionDownload, File = f, D2Path = d2path,
                                     LocalCRC = hashed\<rparr>]) (tcl + ContentLength f)
             else getFilesToPatch_loop E d d2path filesToIgnore files shouldPatch tcl))"

definition getFilesToPatch ::
  "env \<Rightarrow> disk \<Rightarrow> PatchFile list \<Rightarrow> string \<Rightarrow> string list \<Rightarrow> error + (PatchAction list \<times> 64 word)" where
  "getFilesToPatch E d files d2path filesToIgnore =
     getFilesToPatch_loop E d d2path filesToIgnore files [] 0"

section \<open>The patch applier: \<^verbatim>\<open>doPatch\<close> and \<^verbatim>\<open>cleanUpFailedPatch\<close>\<close>

text \<open>
  \<^verbatim>\<open>downloadFile\<close>: \<^verbatim>\<open>os.Create\<close> makes the file empty (or truncates it), the remote
  content is fetched, and \<^verbatim>\<open>io.Copy\<close> writes it. A failed fetch or a failed copy leaves
  the created file behind; the bytes a failed copy has written are not modelled, the
  file is left empty. The write counter only reports progress and is left out.
\<close>

definition downloadFile ::
  "env \<Rightarrow> disk \<Rightarrow> string \<Rightarrow> string \<Rightarrow> string \<Rightarrow> string \<Rightarrow> error option \<times> disk" where
  "downloadFile E d fileName remoteDir dir tmpName =
     (if denied E (OpCreate dir tmpName) then (Some ErrIO, d)
      else let out = write_file d dir tmpName [] in
        case GetFile E (remoteDir @ ''/'' @ fileName) of
          Inl err \<Rightarrow> (Some err, out)
        | Inr contents \<Rightarrow>
            if denied E (OpWrite dir tmpName) then (Some ErrIO, out)
            else (None, write_file out dir tmpName contents))"

definition deleteFile :: "env \<Rightarrow> disk \<Rightarrow> string \<Rightarrow> string \<Rightarrow> error option \<times> disk" where
  "deleteFile E d fileName path =
     (case os_Stat E d path fileName of
        Some err \<Rightarrow> if os_IsNotExist err then (None, d) else (Some err, d)
      | None \<Rightarrow> os_Remove E d path fileName)"

text \<open>
  The first loop of \<^verbatim>\<open>doPatch\<close>: every action in turn, the names of the downloaded
  \<^verbatim>\<open>.tmp\<close> files collected in \<^verbatim>\<open>tmpFiles\<close>. The first error returns, with the disk as it
  is then.
\<close>

fun doPatch_actions ::
  "env \<Rightarrow> string \<Rightarrow> string \<Rightarrow> PatchAction list \<Rightarrow> string list \<Rightarrow> disk
     \<Rightarrow> (error + string list) \<times> disk" where
  "doPatch_actions E remoteDir path [] tmpFiles d = (Inr tmpFiles, d)"
| "doPatch_actions E remoteDir path (action # patchFiles) tmpFiles d =
     (let tmpPath = Name (File action) @ ''.tmp'' in
      case Action action of
        ActionDownload \<Rightarrow>
          (case downloadFile E d (Name (File action)) remoteDir path tmpPath of
             (Some err, d') \<Rightarrow> (Inl err, d')
           | (None, d') \<Rightarrow> doPatch_actions E remoteDir path patchFiles (tmpFiles @ [tmpPath]) d')
      | ActionDelete \<Rightarrow>
          (case deleteFile E d (Name (File action)) path of
             (Some err, d') \<Rightarrow> (Inl err, d')
           | (None, d') \<Rightarrow> doPatch_actions E remoteDir path patchFiles tmpFiles d'))"

text \<open>
  The second loop: \<^verbatim>\<open>os.Rename(tmpFile, tmpFile[:len(tmpFile)-4])\<close> for every collected
  name.
\<close>

fun doPatch_renames :: "env \<Rightarrow> string \<Rightarrow> string list \<Rightarrow> disk \<Rightarrow> error option \<times> disk" where
  "doPatch_renames E path [] d = (None, d)"
| "doPatch_renames E path (tmpFile # tmpFiles) d =
     (case os_Rename E d path tmpFile (take (length tmpFile - 4) tmpFile) of
        (Some err, d') \<Rightarrow> (Some err, d')
      | (None, d') \<Rightarrow> doPatch_renames E path tmpFiles d')"

definition doPatch ::
  "env \<Rightarrow> disk \<Rightarrow> PatchAction list \<Rightarrow> string \<Rightarrow> string \<Rightarrow> error option \<times> disk" where
  "doPatch E d patchFiles remoteDir path =
     (case doPatch_actions E remoteDir path patchFiles [] d of
        (Inl err, d') \<Rightarrow> (Some err, d')
      | (Inr tmpFiles, d') \<Rightarrow> doPatch_renames E path tmpFiles d')"

text \<open>\<^verbatim>\<open>strings.Contains(s, substr)\<close>.\<close>

definition strings_Contains :: "string \<Rightarrow> string \<Rightarrow> bool" where
  "strings_Contains s substr = sublist substr s"

fun cleanUp_loop :: "env \<Rightarrow> string \<Rightarrow> string list \<Rightarrow> disk \<Rightarrow> error option \<times> disk" where
  "cleanUp_loop E dir [] d = (None, d)"
| "cleanUp_loop E dir (fileName # files) d =
     (if strings_Contains fileName ''.tmp''
      then (case os_Remove E d dir fileName of
              (Some err, d') \<Rightarrow> (Some err, d')
            | (None, d') \<Rightarrow> cleanUp_loop E dir files d')
      else cleanUp_loop E dir files d)"

definition cleanUpFailedPatch :: "env \<Rightarrow> disk \<Rightarrow> string \<Rightarrow> error option \<times> disk" where
  "cleanUpFailedPatch E d dir =
     (case ioutil_ReadDir E d dir of
        Inl err \<Rightarrow> (Some err, d)
      | Inr files \<Rightarrow> cleanUp_loop E dir files d)"

text \<open>
  \<^verbatim>\<open>applyHDMod\<close>, without the messages it sends to the user interface: the diff, the
  patch, and the cleanup when the patch fails. \<^verbatim>\<open>apply113c\<close>, \<^verbatim>\<open>applySlashPatch\<close> and
  \<^verbatim>\<open>applyMaphack\<close> differ in the manifest, the remote directory and the ignore list only.
\<close>

definition applyHDMod ::
  "env \<Rightarrow> disk \<Rightarrow> string \<Rightarrow> string \<Rightarrow> PatchFile list \<Rightarrow> error option \<times> disk" where
  "applyHDMod E d path version manifestFiles =
     (case getFilesToPatch E d manifestFiles path [] of
        Inl err \<Rightarrow> (Some err, d)
      | Inr (patchFiles, patchLength) \<Rightarrow>
          if length patchFiles > 0 then
            (case doPatch E d patchFiles (''hd_'' @ version) path of
               (Some patchErr, d') \<Rightarrow>
                 (case cleanUpFailedPatch E d' path of
                    (Some err, d'') \<Rightarrow> (Some (ErrCleanup patchErr err), d'')
                  | (None, d'') \<Rightarrow> (Some patchErr, d''))
             | (None, d') \<Rightarrow> (None, d'))
          else (None, d))"

section \<open>Manifests and mod reconciliation\<close>

definition getManifest :: "env \<Rightarrow> string \<Rightarrow> error + Manifest" where
  "getManifest E path =
     (case GetFile E path of
        Inl err \<Rightarrow> Inl err
      | Inr bytes \<Rightarrow> json_Unmarshal E bytes)"

text \<open>\<^verbatim>\<open>getAvailableMods\<close>: the cached value, or the remote one, which is then cached.\<close>

definition getAvailableMods :: "env \<Rightarrow> service \<Rightarrow> (error + GameMods) \<times> service" where
  "getAvailableMods E s =
     (case availableMods s of
        Some mods \<Rightarrow> (Inr mods, s)
      | None \<Rightarrow>
          (case GetAvailableMods E of
             Inl err \<Rightarrow> (Inl err, s)
           | Inr gameMods \<Rightarrow> (Inr gameMods, s\<lparr>availableMods := Some gameMods\<rparr>)))"

text \<open>
  Modelled from the spec: \<^verbatim>\<open>isModInstalled\<close> (its file is not part of the sources). The
  spec has a version detected as installed by checking for a category-identifying marker
  file in the manifest's file set: the existence of the file on disk is the evidence.
\<close>

definition isModInstalled :: "env \<Rightarrow> disk \<Rightarrow> string \<Rightarrow> string \<Rightarrow> Manifest \<Rightarrow> error + bool" where
  "isModInstalled E d path identifier manifest =
     (if list_ex (\<lambda>f. Name f = identifier) (Files manifest)
      then fileExistsOnDisk E d identifier path
      else Inr False)"

text \<open>The loop of \<^verbatim>\<open>resetPatch\<close> over the manifest's files.\<close>

fun resetPatch_loop ::
  "env \<Rightarrow> string \<Rightarrow> string list \<Rightarrow> PatchFile list \<Rightarrow> disk \<Rightarrow> error option \<times> disk" where
  "resetPatch_loop E path filesToIgnore [] d = (None, d)"
| "resetPatch_loop E path filesToIgnore (file # files) d =
     (case os_Stat E d path (Name file) of
        Some err \<Rightarrow>
          if os_IsNotExist err then resetPatch_loop E path filesToIgnore files d
          else (Some err, d)
      | None \<Rightarrow>
          (let ignore = list_ex (\<lambda>ignored. Name file = ignored) filesToIgnore in
           if \<not> ignore then
             (case os_Remove E d path (Name file) of
                (Some err, d') \<Rightarrow> (Some err, d')
              | (None, d') \<Rightarrow> resetPatch_loop E path filesToIgnore files d')
           else resetPatch_loop E path filesToIgnore files d))"

definition resetPatch ::
  "env \<Rightarrow> disk \<Rightarrow> string \<Rightarrow> PatchFile list \<Rightarrow> string list \<Rightarrow> error option \<times> disk" where
  "resetPatch E d path files filesToIgnore =
     (case getFilesToPatch E d files path filesToIgnore of
        Inl err \<Rightarrow> (Some err, d)
      | Inr (missmatchedFiles, _) \<Rightarrow>
          if length missmatchedFiles \<noteq> length files
          then resetPatch_loop E path filesToIgnore files d
          else (None, d))"

fun resetHDPatch_loop :: "env \<Rightarrow> Game \<Rightarrow> string list \<Rightarrow> disk \<Rightarrow> error option \<times> disk" where
  "resetHDPatch_loop E game [] d = (None, d)"
| "resetHDPatch_loop E game (m # ms) d =
     (if HDVersion game = m then resetHDPatch_loop E game ms d
      else
        (case getManifest E (''hd_'' @ m @ ''/manifest.json'') of
           Inl err \<Rightarrow> (Some err, d)
         | Inr HDManifest \<Rightarrow>
             (case isModInstalled E d (Location game) (ModHDIdentifier E) HDManifest of
                Inl err \<Rightarrow> (Some err, d)
              | Inr installed \<Rightarrow>
                  if installed then
                    (case resetPatch E d (Location game) (Files HDManifest) [] of
                       (Some err, d') \<Rightarrow> (Some err, d')
                     | (None, d') \<Rightarrow> resetHDPatch_loop E game ms d')
                  else resetHDPatch_loop E game ms d)))"

definition resetHDPatch ::
  "env \<Rightarrow> disk \<Rightarrow> service \<Rightarrow> Game \<Rightarrow> error option \<times> disk \<times> service" where
  "resetHDPatch E d s game =
     (case getAvailableMods E s of
        (Inl err, s') \<Rightarrow> (Some err, d, s')
      | (Inr mods, s') \<Rightarrow>
          (case resetHDPatch_loop E game (HD mods) d of (err, d') \<Rightarrow> (err, d', s')))"

fun resetMaphackPatch_loop ::
  "env \<Rightarrow> Game \<Rightarrow> string list \<Rightarrow> string list \<Rightarrow> disk \<Rightarrow> error option \<times> disk" where
  "resetMaphackPatch_loop E game filesToIgnore [] d = (None, d)"
| "resetMaphackPatch_loop E game filesToIgnore (m # ms) d =
     (if MaphackVersion game = m then resetMaphackPatch_loop E game filesToIgnore ms d
      else
        (case getManifest E (''maphack_'' @ m @ ''/manifest.json'') of
           Inl err \<Rightarrow> (Some err, d)
         | Inr maphackManifest \<Rightarrow>
             (case isModInstalled E d (Location game) (ModMaphackIdentifier E) maphackManifest of
                Inl err \<Rightarrow> (Some err, d)
              | Inr installed \<Rightarrow>
                  if installed then
                    (case resetPatch E d (Location game) (Files maphackManifest) filesToIgnore of
                       (Some err, d') \<Rightarrow> (Some err, d')
                     | (None, d') \<Rightarrow> resetMaphackPatch_loop E game filesToIgnore ms d')
                  else resetMaphackPatch_loop E game filesToIgnore ms d)))"

definition resetMaphackPatch ::
  "env \<Rightarrow> disk \<Rightarrow> service \<Rightarrow> Game \<Rightarrow> string list \<Rightarrow> error option \<times> disk \<times> service" where
  "resetMaphackPatch E d s game filesToIgnore =
     (case getAvailableMods E s of
        (Inl err, s') \<Rightarrow> (Some err, d, s')
      | (Inr mods, s') \<Rightarrow>
          (case resetMaphackPatch_loop E game filesToIgnore (Maphack mods) d of
             (err, d') \<Rightarrow> (err, d', s')))"

section \<open>Validation and the patch-file display model\<close>

text \<open>
  Modelled from the spec: \<^verbatim>\<open>FileModel.AddFile\<close> (\<^verbatim>\<open>filemodel.go\<close> is not part of the
  sources). The spec has every produced action aggregated into a single ordered action
  list for display: a file is added at the end.
\<close>

definition AddFile :: "FileItem list \<Rightarrow> FileItem \<Rightarrow> FileItem list" where
  "AddFile model f = model @ [f]"

fun addFilesToModel :: "service \<Rightarrow> PatchAction list \<Rightarrow> service" where
  "addFilesToModel s [] = s"
| "addFilesToModel s (action # patchActions) =
     addFilesToModel
       (s\<lparr>patchFileModel :=
            AddFile (patchFileModel s)
              \<lparr>item_Name = Name (File action), item_D2Path = D2Path action,
               item_RemoteCRC = CRC (File action), item_LocalCRC = LocalCRC action,
               item_FileAction = Action_string (Action action)\<rparr>\<rparr>)
       patchActions"

text \<open>
  The loop of \<^verbatim>\<open>addPatchFilesToBeDeleted\<close> fills \<^verbatim>\<open>actions[i]\<close> for every file in turn; any
  error of \<^verbatim>\<open>hashCRC32\<close> returns before the model is touched.
\<close>

fun addPatchFilesToBeDeleted_loop ::
  "env \<Rightarrow> disk \<Rightarrow> string \<Rightarrow> PatchFile list \<Rightarrow> PatchAction list \<Rightarrow> error + PatchAction list" where
  "addPatchFilesToBeDeleted_loop E d d2path [] actions = Inr actions"
| "addPatchFilesToBeDeleted_loop E d d2path (file # files) actions =
     (case hashCRC32 E d d2path (Name file) of
        (hashed, Some err) \<Rightarrow> Inl err
      | (hashed, None) \<Rightarrow>
          addPatchFilesToBeDeleted_loop E d d2path files
            (actions @ [\<lparr>Action = ActionDelete, File = file, D2Path = d2path,
                          LocalCRC = hashed\<rparr>]))"

definition addPatchFilesToBeDeleted ::
  "env \<Rightarrow> disk \<Rightarrow> service \<Rightarrow> string \<Rightarrow> PatchFile list \<Rightarrow> error option \<times> service" where
  "addPatchFilesToBeDeleted E d s d2path files =
     (case addPatchFilesToBeDeleted_loop E d d2path files [] of
        Inl err \<Rightarrow> (Some err, s)
      | Inr actions \<Rightarrow> (None, addFilesToModel s actions))"

text \<open>
  \<^verbatim>\<open>validateMaphackVersion\<close>: the loop over the available versions, with \<^verbatim>\<open>isValid\<close> and
  the service (whose display model grows) as the loop's state. An error return keeps the
  service as it is then.
\<close>

fun validateMaphackVersion_loop ::
  "env \<Rightarrow> disk \<Rightarrow> Game \<Rightarrow> string list \<Rightarrow> bool \<Rightarrow> service \<Rightarrow> (error + bool) \<times> service" where
  "validateMaphackVersion_loop E d game [] isValid s = (Inr isValid, s)"
| "validateMaphackVersion_loop E d game (v # versions) isValid s =
     (case getManifest E (''maphack_'' @ v @ ''/manifest.json'') of
        Inl err \<Rightarrow> (Inl err, s)
      | Inr manifest \<Rightarrow>
          (let ignoredMaphackFiles = (if OverrideBHCfg game then [''BH.cfg''] else []) in
           if MaphackVersion game = v then
             (case getFilesToPatch E d (Files manifest) (Location game) ignoredMaphackFiles of
                Inl err \<Rightarrow> (Inl err, s)
              | Inr (missingMaphackFiles, _) \<Rightarrow>
                  if length missingMaphackFiles > 0
                  then validateMaphackVersion_loop E d game versions False
                         (addFilesToModel s missingMaphackFiles)
                  else validateMaphackVersion_loop E d game versions isValid s)
           else
             (case isModInstalled E d (Location game) (ModMaphackIdentifier E) manifest of
                Inl err \<Rightarrow> (Inl err, s)
              | Inr installed \<Rightarrow>
                  if installed then
                    (case addPatchFilesToBeDeleted E d s (Location game) (Files manifest) of
                       (Some err, s') \<Rightarrow> (Inl err, s')
                     | (None, s') \<Rightarrow> validateMaphackVersion_loop E d game versions False s')
                  else validateMaphackVersion_loop E d game versions isValid s)))"

definition validateMaphackVersion ::
  "env \<Rightarrow> disk \<Rightarrow> service \<Rightarrow> Game \<Rightarrow> string list \<Rightarrow> (error + bool) \<times> service" where
  "validateMaphackVersion E d s game versions =
     validateMaphackVersion_loop E d game versions True s"

fun validateHDVersion_loop ::
  "env \<Rightarrow> disk \<Rightarrow> Game \<Rightarrow> string list \<Rightarrow> bool \<Rightarrow> service \<Rightarrow> (error + bool) \<times> service" where
  "validateHDVersion_loop E d game [] isValid s = (Inr isValid, s)"
| "validateHDVersion_loop E d game (v # versions) isValid s =
     (case getManifest E (''hd_'' @ v @ ''/manifest.json'') of
        Inl err \<Rightarrow> (Inl err, s)
      | Inr manifest \<Rightarrow>
          if HDVersion game = v then
            (case getFilesToPatch E d (Files manifest) (Location game) [] of
               Inl err \<Rightarrow> (Inl err, s)
             | Inr (missingFiles, _) \<Rightarrow>
                 if length missingFiles > 0
                 then validateHDVersion_loop E d game versions False
                        (addFilesToModel s missingFiles)
                 else validateHDVersion_loop E d game versions isValid s)
          else
            (case isModInstalled E d (Location game) (ModHDIdentifier E) manifest of
               Inl err \<Rightarrow> (Inl err, s)
             | Inr installed \<Rightarrow>
                 if installed then
                   (case addPatchFilesToBeDeleted E d s (Location game) (Files manifest) of
                      (Some err, s') \<Rightarrow> (Inl err, s')
                    | (None, s') \<Rightarrow> validateHDVersion_loop E d game versions False s')
                 else validateHDVersion_loop E d game versions isValid s))"

definition validateHDVersion ::
  "env \<Rightarrow> disk \<Rightarrow> service \<Rightarrow> Game \<Rightarrow> string list \<Rightarrow> (error + bool) \<times> service" where
  "validateHDVersion E d s game versions = validateHDVersion_loop E d game versions True s"

text \<open>
  The body of the loop of \<^verbatim>\<open>ValidateGameVersions\<close> for one installation: the 1.13c
  check, the diff against the current patch, the maphack and the HD validation. The
  result is the new value of \<^verbatim>\<open>upToDate\<close>, or the error that the function returns with.
\<close>

definition ValidateGameVersions_game ::
  "env \<Rightarrow> disk \<Rightarrow> Manifest \<Rightarrow> Manifest \<Rightarrow> GameMods \<Rightarrow> Game \<Rightarrow> bool \<Rightarrow> service
     \<Rightarrow> (error + bool) \<times> service" where
  "ValidateGameVersions_game E d version113cManifest slashManifest mods game upToDate s =
     (case validate113cVersion E d (Location game) of
        Inl err \<Rightarrow> (Inl err, s)
      | Inr valid \<Rightarrow>
          (case (if \<not> valid then
                   (case getFilesToPatch E d (Files version113cManifest) (Location game) [] of
                      Inl err \<Rightarrow> Inl err
                    | Inr (version113cFiles, _) \<Rightarrow>
                        Inr (False, addFilesToModel s version113cFiles))
                 else Inr (upToDate, s)) of
             Inl err \<Rightarrow> (Inl err, s)
           | Inr (upToDate1, s1) \<Rightarrow>
               (case getFilesToPatch E d (Files slashManifest) (Location game) [] of
                  Inl err \<Rightarrow> (Inl err, s1)
                | Inr (slashFiles, _) \<Rightarrow>
                    (let s2 = (if length slashFiles > 0 then addFilesToModel s1 slashFiles
                               else s1);
                         upToDate2 = (if length slashFiles > 0 then False else upToDate1) in
                     case validateMaphackVersion E d s2 game (Maphack mods) of
                       (Inl err, s3) \<Rightarrow> (Inl err, s3)
                     | (Inr validMaphack, s3) \<Rightarrow>
                         (let upToDate3 = (if \<not> validMaphack then False else upToDate2) in
                          case validateHDVersion E d s3 game (HD mods) of
                            (Inl err, s4) \<Rightarrow> (Inl err, s4)
                          | (Inr validHD, s4) \<Rightarrow>
                              (Inr (if \<not> validHD then False else upToDate3), s4))))))"

fun ValidateGameVersions_loop ::
  "env \<Rightarrow> disk \<Rightarrow> Manifest \<Rightarrow> Manifest \<Rightarrow> GameMods \<Rightarrow> Game list \<Rightarrow> bool \<Rightarrow> service
     \<Rightarrow> (error + bool) \<times> service" where
  "ValidateGameVersions_loop E d version113cManifest slashManifest mods [] upToDate s =
     (Inr upToDate, s)"
| "ValidateGameVersions_loop E d version113cManifest slashManifest mods (game # games) upToDate s =
     (case ValidateGameVersions_game E d version113cManifest slashManifest mods game upToDate s of
        (Inl err, s') \<Rightarrow> (Inl err, s')
      | (Inr upToDate', s') \<Rightarrow>
          ValidateGameVersions_loop E d version113cManifest slashManifest mods games upToDate' s')"

text \<open>
  \<^verbatim>\<open>ValidateGameVersions\<close>. The Go function returns \<^verbatim>\<open>(false, err)\<close> on an error; the
  service is returned beside the result, as the function has left it.
\<close>

definition ValidateGameVersions :: "env \<Rightarrow> disk \<Rightarrow> service \<Rightarrow> (error + bool) \<times> service" where
  "ValidateGameVersions E d s =
     (case configRead E of
        Inl err \<Rightarrow> (Inl err, s)
      | Inr conf \<Rightarrow>
          (case getManifest E ''1.13c/manifest.json'' of
             Inl err \<Rightarrow> (Inl err, s)
           | Inr version113cManifest \<Rightarrow>
               (case getManifest E ''current/manifest.json'' of
                  Inl err \<Rightarrow> (Inl err, s)
                | Inr slashManifest \<Rightarrow>
                    (case getAvailableMods E s of
                       (Inl err, s') \<Rightarrow> (Inl err, s')
                     | (Inr mods, s') \<Rightarrow>
                         if length (Games conf) > 0
                         then ValidateGameVersions_loop E d version113cManifest slashManifest
                                mods (Games conf) True s'
                         else (Inr True, s')))))"

section \<open>The process orchestrator: \<^verbatim>\<open>Exec\<close>\<close>

definition defaultLaunchDelay :: "64 word" where
  "defaultLaunchDelay = 1000"

text \<open>\<^verbatim>\<open>time.Millisecond\<close>, in nanoseconds.\<close>

definition time_Millisecond :: "64 word" where
  "time_Millisecond = 1000000"

text \<open>
  The inner loop of \<^verbatim>\<open>mutateInstancesToLaunch\<close>, which counts the running games of an id
  in a Go \<^verbatim>\<open>int\<close>.
\<close>

fun runningCount :: "game list \<Rightarrow> string \<Rightarrow> 64 word \<Rightarrow> 64 word" where
  "runningCount [] gameID n = n"
| "runningCount (running # rs) gameID n =
     runningCount rs gameID (if gameID = GameID running then n + 1 else n)"

text \<open>
  \<^verbatim>\<open>mutateInstancesToLaunch\<close> writes into the slice it is given; the model returns the
  slice. The subtraction is Go's: it wraps around.
\<close>

fun mutateInstancesToLaunch :: "service \<Rightarrow> Game list \<Rightarrow> Game list" where
  "mutateInstancesToLaunch s [] = []"
| "mutateInstancesToLaunch s (g # games) =
     g\<lparr>Instances := Instances g - runningCount (runningGames s) (ID g) 0\<rparr>
       # mutateInstancesToLaunch s games"

text \<open>
  The loop \<^verbatim>\<open>for i := 0; i < g.Instances; i++\<close> for the installation at index \<open>k\<close>, with
  the signed comparison of Go. The sleep is
  \<^verbatim>\<open>time.Sleep(time.Duration(delayMS) * time.Millisecond)\<close>, a product that wraps around.
  The events are collected in the order in which they happen; a launch that fails is an
  event too, and returns.
\<close>

function Exec_instances ::
  "env \<Rightarrow> 64 word \<Rightarrow> nat \<Rightarrow> Game \<Rightarrow> 64 word \<Rightarrow> service \<Rightarrow> event list
     \<Rightarrow> error option \<times> service \<times> event list" where
  "Exec_instances E delayMS k g i s tr =
     (if i <s Instances g then
        (let firstRun = (k = 0 \<and> i = 0);
             tr1 = (if \<not> firstRun then tr @ [Sleep (delayMS * time_Millisecond)] else tr) in
         case launch E tr1 (Location g) (Flags g) of
           Inl err \<Rightarrow> (Some err, s, tr1 @ [Launch (Location g) (Flags g)])
         | Inr pid \<Rightarrow>
             Exec_instances E delayMS k g (i + 1)
               (s\<lparr>runningGames := runningGames s @ [\<lparr>PID = pid, GameID = ID g\<rparr>]\<rparr>)
               (tr1 @ [Launch (Location g) (Flags g)]))
      else (None, s, tr))"
  by pat_completeness auto
termination
proof (relation "measure (\<lambda>(E, delayMS, k, g, i, s, tr). nat (sint (Instances g) - sint i))")
  show "wf (measure (\<lambda>(E, delayMS, k, g, i, s, tr). nat (sint (Instances g) - sint i)))"
    by simp
next
  fix E :: env and delayMS :: "64 word" and k :: nat and g :: Game and i :: "64 word"
    and s :: service and tr :: "event list" and firstRun :: bool and tr1 :: "event list"
    and pid :: int
  assume lt: "i <s Instances g"
  have "sint i < sint (Instances g)" using lt by (simp add: word_sless_alt)
  moreover have "sint (Instances g) < 2 ^ 63" using sint_lt [of "Instances g"] by simp
  moreover have "- (2 ^ 63) \<le> sint i" using sint_ge [of i] by simp
  ultimately have r: "- (2 ^ 63) \<le> sint i + 1" "sint i + 1 < 2 ^ 63"
    and l: "sint i < sint (Instances g)" by simp_all
  have "i + 1 = word_of_int (sint i + 1)" by simp
  then have "sint (i + 1) = signed_take_bit 63 (sint i + 1)"
    by (simp only: sint_sbintrunc') simp
  with r have "sint (i + 1) = sint i + 1" by (simp add: signed_take_bit_int_eq_self)
  with l show "((E, delayMS, k, g, i + 1,
                 s\<lparr>runningGames := runningGames s @ [\<lparr>PID = pid, GameID = ID g\<rparr>]\<rparr>,
                 tr1 @ [Launch (Location g) (Flags g)]),
                E, delayMS, k, g, i, s, tr)
          \<in> measure (\<lambda>(E, delayMS, k, g, i, s, tr). nat (sint (Instances g) - sint i))"
    by simp
qed

declare Exec_instances.simps [simp del]

fun Exec_games ::
  "env \<Rightarrow> 64 word \<Rightarrow> nat \<Rightarrow> Game list \<Rightarrow> service \<Rightarrow> event list
     \<Rightarrow> error option \<times> service \<times> event list" where
  "Exec_games E delayMS k [] s tr = (None, s, tr)"
| "Exec_games E delayMS k (g # games) s tr =
     (if 0 <s Instances g then
        (case Exec_instances E delayMS k g 0 s tr of
           (Some err, s', tr') \<Rightarrow> (Some err, s', tr')
         | (None, s', tr') \<Rightarrow> Exec_games E delayMS (Suc k) games s' tr')
      else Exec_games E delayMS (Suc k) games s tr)"

definition Exec :: "env \<Rightarrow> service \<Rightarrow> error option \<times> service \<times> event list" where
  "Exec E s =
     (case configRead E of
        Inl err \<Rightarrow> (Some err, s, [])
      | Inr conf \<Rightarrow>
          (let games = mutateInstancesToLaunch s (Games conf);
               delayMS = (if LaunchDelay conf = 0 then defaultLaunchDelay
                          else LaunchDelay conf) in
           Exec_games E delayMS 0 games s []))"

text \<open>
  The launches that the spec asks for, to compare \<^verbatim>\<open>Exec\<close> with. An installation is due
  its configured instance count minus the number of running processes recorded with its
  id, as numbers without bound, and nothing when the difference is not positive.
  Installation \<open>k\<close> is launched that many times; every launch but the first one of
  installation \<open>0\<close> comes after a sleep of the launch delay.
\<close>

definition instances_due :: "service \<Rightarrow> Game \<Rightarrow> nat" where
  "instances_due s g =
     nat (sint (Instances g)
          - int (length (filter (\<lambda>running. GameID running = ID g) (runningGames s))))"

definition launch_events :: "64 word \<Rightarrow> nat \<Rightarrow> Game \<Rightarrow> nat \<Rightarrow> event list" where
  "launch_events delay k g n =
     concat (map (\<lambda>i. (if k = 0 \<and> i = 0 then [] else [Sleep delay])
                        @ [Launch (Location g) (Flags g)]) [0..<n])"

fun expected_trace :: "64 word \<Rightarrow> nat \<Rightarrow> service \<Rightarrow> Game list \<Rightarrow> event list" where
  "expected_trace delay k s [] = []"
| "expected_trace delay k s (g # games) =
     launch_events delay k g (instances_due s g) @ expected_trace delay (Suc k) s games"

fun expected_ids :: "service \<Rightarrow> Game list \<Rightarrow> string list" where
  "expected_ids s [] = []"
| "expected_ids s (g # games) = replicate (instances_due s g) (ID g) @ expected_ids s games"

definition is_Launch :: "event \<Rightarrow> bool" where
  "is_Launch e = (case e of Launch location flags \<Rightarrow> True | Sleep duration \<Rightarrow> False)"

section \<open>Applying a diff, in the words of the round-trip property\<close>

text \<open>
  The spec's round-trip property applies the \<^verbatim>\<open>Download\<close> actions of a diff: each named
  file's content is replaced by a content whose checksum is the entry's remote checksum,
  and the files that no \<^verbatim>\<open>Download\<close> action names stay as they are. The names that matter
  are the entries of the directory before and after.
\<close>

definition downloads_applied :: "env \<Rightarrow> string \<Rightarrow> PatchAction list \<Rightarrow> disk \<Rightarrow> disk \<Rightarrow> bool" where
  "downloads_applied E path actions d d' =
     ((\<forall>a \<in> set actions. Action a = ActionDownload \<longrightarrow>
         (case lookup d' path (Name (File a)) of
            None \<Rightarrow> False
          | Some c \<Rightarrow> checksum E c = CRC (File a)))
      \<and> (\<forall>name \<in> fst ` set (d path @ d' path).
           (\<forall>a \<in> set actions. Action a = ActionDownload \<longrightarrow> name \<noteq> Name (File a)) \<longrightarrow>
           lookup d' path name = lookup d path name))"

text \<open>
  Applying every action of a diff: a downloaded file has the entry's remote checksum, a
  deleted file is gone, and the files that no action names stay as they are.
\<close>

definition actions_applied :: "env \<Rightarrow> string \<Rightarrow> PatchAction list \<Rightarrow> disk \<Rightarrow> disk \<Rightarrow> bool" where
  "actions_applied E path actions d d' =
     ((\<forall>a \<in> set actions.
         (case Action a of
            ActionDownload \<Rightarrow>
              (case lookup d' path (Name (File a)) of
                 None \<Rightarrow> False
               | Some c \<Rightarrow> checksum E c = CRC (File a))
          | ActionDelete \<Rightarrow> lookup d' path (Name (File a)) = None))
      \<and> (\<forall>name \<in> fst ` set (d path @ d' path).
           (\<forall>a \<in> set actions. name \<noteq> Name (File a)) \<longrightarrow>
           lookup d' path name = lookup d path name))"

section \<open>The targets of validation\<close>

text \<open>
  The display item that \<^verbatim>\<open>addFilesToModel\<close> makes of an action.
\<close>

definition item_of :: "PatchAction \<Rightarrow> FileItem" where
  "item_of action =
     \<lparr>item_Name = Name (File action), item_D2Path = D2Path action,
      item_RemoteCRC = CRC (File action), item_LocalCRC = LocalCRC action,
      item_FileAction = Action_string (Action action)\<rparr>"

text \<open>
  \<^verbatim>\<open>ValidateGameVersions\<close> checks, for each installation in turn, the 1.13c base, the
  current patch, every available maphack version and every available HD version. Each
  of these targets, taken alone, gives the actions to display for it or an error; none
  of them reads the display model.
\<close>

definition target_113c :: "env \<Rightarrow> disk \<Rightarrow> Manifest \<Rightarrow> Game \<Rightarrow> error + PatchAction list" where
  "target_113c E d version113cManifest game =
     (case validate113cVersion E d (Location game) of
        Inl err \<Rightarrow> Inl err
      | Inr valid \<Rightarrow>
          if \<not> valid then
            (case getFilesToPatch E d (Files version113cManifest) (Location game) [] of
               Inl err \<Rightarrow> Inl err
             | Inr (version113cFiles, _) \<Rightarrow> Inr version113cFiles)
          else Inr [])"

definition target_slash :: "env \<Rightarrow> disk \<Rightarrow> Manifest \<Rightarrow> Game \<Rightarrow> error + PatchAction list" where
  "target_slash E d slashManifest game =
     (case getFilesToPatch E d (Files slashManifest) (Location game) [] of
        Inl err \<Rightarrow> Inl err
      | Inr (slashFiles, _) \<Rightarrow> Inr slashFiles)"

definition target_maphack :: "env \<Rightarrow> disk \<Rightarrow> Game \<Rightarrow> string \<Rightarrow> error + PatchAction list" where
  "target_maphack E d game v =
     (case getManifest E (''maphack_'' @ v @ ''/manifest.json'') of
        Inl err \<Rightarrow> Inl err
      | Inr manifest \<Rightarrow>
          if MaphackVersion game = v then
            (case getFilesToPatch E d (Files manifest) (Location game)
                    (if OverrideBHCfg game then [''BH.cfg''] else []) of
               Inl err \<Rightarrow> Inl err
             | Inr (missingMaphackFiles, _) \<Rightarrow> Inr missingMaphackFiles)
          else
            (case isModInstalled E d (Location game) (ModMaphackIdentifier E) manifest of
               Inl err \<Rightarrow> Inl err
             | Inr installed \<Rightarrow>
                 if installed
                 then addPatchFilesToBeDeleted_loop E d (Location game) (Files manifest) []
                 else Inr []))"

definition target_hd :: "env \<Rightarrow> disk \<Rightarrow> Game \<Rightarrow> string \<Rightarrow> error + PatchAction list" where
  "target_hd E d game v =
     (case getManifest E (''hd_'' @ v @ ''/manifest.json'') of
        Inl err \<Rightarrow> Inl err
      | Inr manifest \<Rightarrow>
          if HDVersion game = v then
            (case getFilesToPatch E d (Files manifest) (Location game) [] of
               Inl err \<Rightarrow> Inl err
             | Inr (missingFiles, _) \<Rightarrow> Inr missingFiles)
          else
            (case isModInstalled E d (Location game) (ModHDIdentifier E) manifest of
               Inl err \<Rightarrow> Inl err
             | Inr installed \<Rightarrow>
                 if installed
                 then addPatchFilesToBeDeleted_loop E d (Location game) (Files manifest) []
                 else Inr []))"

text \<open>
  The targets of one installation, and of all configured installations, in the order in
  which \<^verbatim>\<open>ValidateGameVersions\<close> processes them.
\<close>

definition game_targets ::
  "env \<Rightarrow> disk \<Rightarrow> Manifest \<Rightarrow> Manifest \<Rightarrow> GameMods \<Rightarrow> Game \<Rightarrow> (error + PatchAction list) list" where
  "game_targets E d version113cManifest slashManifest mods game =
     [target_113c E d version113cManifest game, target_slash E d slashManifest game]
       @ map (target_maphack E d game) (Maphack mods)
       @ map (target_hd E d game) (HD mods)"

definition validation_targets ::
  "env \<Rightarrow> disk \<Rightarrow> Manifest \<Rightarrow> Manifest \<Rightarrow> GameMods \<Rightarrow> Game list
     \<Rightarrow> (error + PatchAction list) list" where
  "validation_targets E d version113cManifest slashManifest mods games =
     concat (map (game_targets E d version113cManifest slashManifest mods) games)"

text \<open>
  Processing a sequence of targets with no rollback: the actions of each target are added
  to the display model, and the first error stops the processing and keeps the service as
  it is then.
\<close>

fun process_targets :: "service \<Rightarrow> (error + PatchAction list) list \<Rightarrow> error option \<times> service" where
  "process_targets s [] = (None, s)"
| "process_targets s (Inl err # targets) = (Some err, s)"
| "process_targets s (Inr actions # targets) = process_targets (addFilesToModel s actions) targets"

section \<open>Fixtures\<close>

text \<open>
  An environment in which no system call is refused; the checksum of a content is the
  content itself, the remote store has nothing and every launch succeeds.
\<close>

definition fixture_env :: env where
  "fixture_env =
     \<lparr>denied = (\<lambda>_. False), checksum = (\<lambda>c. c), GetFile = (\<lambda>_. Inl ErrTransport),
      json_Unmarshal = (\<lambda>_. Inl ErrTransport), GetAvailableMods = Inl ErrTransport,
      configRead = Inl ErrConfig, validate113cVersion = (\<lambda>d p. Inr True),
      ModHDIdentifier = ''D2HD.dll'', ModMaphackIdentifier = ''BH.dll'',
      launch = (\<lambda>tr location flags. Inr (int (length tr)))\<rparr>"

definition entry :: "string \<Rightarrow> string \<Rightarrow> 64 word \<Rightarrow> bool \<Rightarrow> bool \<Rightarrow> PatchFile" where
  "entry name crc len ign dep =
     \<lparr>Name = name, CRC = crc, LastModified = 0, ContentLength = len, IgnoreCRC = ign,
      Deprecated = dep\<rparr>"

text \<open>A disk with one install directory.\<close>

definition one_dir :: "string \<Rightarrow> directory \<Rightarrow> disk" where
  "one_dir path entries = (\<lambda>_. [])(path := entries)"

text \<open>
  The same environment with a remote store that serves one file of the HD mod
  \<^verbatim>\<open>v1\<close> and fails on every other path.
\<close>

definition fixture_remote :: env where
  "fixture_remote =
     fixture_env\<lparr>GetFile := (\<lambda>p. if p = ''hd_v1/D2HD.dll'' then Inr ''h1'' else Inl ErrTransport)\<rparr>"

text \<open>
  An install directory in which \<^verbatim>\<open>skin.tmpl\<close> is up to date, \<^verbatim>\<open>D2HD.dll\<close> is stale and
  \<^verbatim>\<open>D2HD.mpq\<close> is missing, and the manifest of the HD mod that lists the three files.
\<close>

definition fixture_hd_dir :: directory where
  "fixture_hd_dir = [(''D2HD.dll'', ''h0''), (''skin.tmpl'', ''s1'')]"

definition fixture_hd_files :: "PatchFile list" where
  "fixture_hd_files =
     [entry ''skin.tmpl'' ''s1'' 2 False False,
      entry ''D2HD.dll'' ''h1'' 2 False False,
      entry ''D2HD.mpq'' ''m1'' 2 False False]"

text \<open>
  A remote store with the manifests of the base game, of the current patch and of two
  maphack versions, \<^verbatim>\<open>v1\<close> and \<^verbatim>\<open>v2\<close>, whose file sets have the same names. The document at
  a manifest path is the path itself, and unmarshalling it gives the manifest.
\<close>

definition fixture_manifest :: "string \<Rightarrow> error + Manifest" where
  "fixture_manifest bytes =
     (if bytes = ''1.13c/manifest.json''
        then Inr \<lparr>Files = [entry ''Game.exe'' ''g1'' 9 False False]\<rparr>
      else if bytes = ''current/manifest.json''
        then Inr \<lparr>Files = [entry ''Patch_D2.mpq'' ''p1'' 8 False False]\<rparr>
      else if bytes = ''maphack_v1/manifest.json''
        then Inr \<lparr>Files = [entry ''BH.dll'' ''b1'' 3 False False,
                            entry ''BH.cfg'' ''c1'' 1 False False]\<rparr>
      else if bytes = ''maphack_v2/manifest.json''
        then Inr \<lparr>Files = [entry ''BH.dll'' ''b2'' 3 False False,
                            entry ''BH.cfg'' ''c2'' 1 False False]\<rparr>
      else Inl ErrTransport)"

definition fixture_game_a :: Game where
  "fixture_game_a =
     \<lparr>ID = ''a'', Location = ''C:/D2a'', Instances = 3, OverrideBHCfg = False,
      Flags = [''-w''], HDVersion = ''none'', MaphackVersion = ''v1''\<rparr>"

definition fixture_game_b :: Game where
  "fixture_game_b =
     \<lparr>ID = ''b'', Location = ''C:/D2b'', Instances = 1, OverrideBHCfg = False,
      Flags = [''-w'', ''-skiptobnet''], HDVersion = ''none'', MaphackVersion = ''none''\<rparr>"

definition fixture_games :: "Game list" where
  "fixture_games = [fixture_game_a, fixture_game_b]"

definition fixture_mods :: env where
  "fixture_mods =
     fixture_env
       \<lparr>GetFile := (\<lambda>p. case fixture_manifest p of Inl err \<Rightarrow> Inl err | Inr _ \<Rightarrow> Inr p),
        json_Unmarshal := fixture_manifest,
        GetAvailableMods := Inr \<lparr>HD = [], Maphack = [''v1'', ''v2'']\<rparr>,
        configRead := Inr \<lparr>Games = fixture_games, LaunchDelay = 1000\<rparr>\<rparr>"

definition fixture_service :: service where
  "fixture_service = \<lparr>availableMods = None, runningGames = [], patchFileModel = []\<rparr>"

text \<open>
  The same environment in which the operating system refuses \<^verbatim>\<open>os.Stat\<close> on the maphack
  marker file of the second installation.
\<close>

definition fixture_stat_refused :: env where
  "fixture_stat_refused = fixture_mods\<lparr>denied := (\<lambda>op. op = OpStat ''C:/D2b'' ''BH.dll'')\<rparr>"

definition fixture_two_dirs :: disk where
  "fixture_two_dirs = (one_dir ''C:/D2a'' [(''Game.exe'', ''g1'')])(''C:/D2b'' := [])"

text \<open>
  The display model after the first installation of the fixture has been validated, and
  the entry that the second installation adds before its maphack validation fails.
\<close>

definition fixture_model_a :: "FileItem list" where
  "fixture_model_a =
     [\<lparr>item_Name = ''Patch_D2.mpq'', item_D2Path = ''C:/D2a'', item_RemoteCRC = ''p1'',
       item_LocalCRC = [], item_FileAction = ''descargar''\<rparr>,
      \<lparr>item_Name = ''BH.dll'', item_D2Path = ''C:/D2a'', item_RemoteCRC = ''b1'',
       item_LocalCRC = [], item_FileAction = ''descargar''\<rparr>,
      \<lparr>item_Name = ''BH.cfg'', item_D2Path = ''C:/D2a'', item_RemoteCRC = ''c1'',
       item_LocalCRC = [], item_FileAction = ''descargar''\<rparr>]"

definition fixture_item_b :: FileItem where
  "fixture_item_b =
     \<lparr>item_Name = ''Patch_D2.mpq'', item_D2Path = ''C:/D2b'', item_RemoteCRC = ''p1'',
      item_LocalCRC = [], item_FileAction = ''descargar''\<rparr>"

definition fixture_cached :: "FileItem list \<Rightarrow> service" where
  "fixture_cached model =
     \<lparr>availableMods = Some \<lparr>HD = [], Maphack = [''v1'', ''v2'']\<rparr>, runningGames = [],
      patchFileModel = model\<rparr>"

text \<open>
  A manifest with a deprecated file and a current one, an install directory that holds
  the deprecated file only, and the same directory after the download, and after the
  download and the deletion.
\<close>

definition fixture_rt_files :: "PatchFile list" where
  "fixture_rt_files =
     [entry ''old.dll'' ''o0'' 4 False True, entry ''Game.exe'' ''g1'' 9 False False]"

definition fixture_rt_actions :: "PatchAction list" where
  "fixture_rt_actions =
     [\<lparr>Action = ActionDelete, File = entry ''old.dll'' ''o0'' 4 False True,
        D2Path = ''C:/D2'', LocalCRC = ''o1''\<rparr>,
      \<lparr>Action = ActionDownload, File = entry ''Game.exe'' ''g1'' 9 False False,
        D2Path = ''C:/D2'', LocalCRC = []\<rparr>]"

definition fixture_rt_before :: disk where
  "fixture_rt_before = one_dir ''C:/D2'' [(''old.dll'', ''o1'')]"

definition fixture_rt_downloaded :: disk where
  "fixture_rt_downloaded = one_dir ''C:/D2'' [(''Game.exe'', ''g1''), (''old.dll'', ''o1'')]"

definition fixture_rt_patched :: disk where
  "fixture_rt_patched = one_dir ''C:/D2'' [(''Game.exe'', ''g1'')]"

text \<open>
  A service with one running process of the first installation; an installation whose
  instance count is the least Go \<^verbatim>\<open>int\<close>, and an environment that configures it alone and
  whose launcher succeeds once and then fails.
\<close>

definition fixture_running :: service where
  "fixture_running =
     \<lparr>availableMods = None, runningGames = [\<lparr>PID = 77, GameID = ''a''\<rparr>],
      patchFileModel = []\<rparr>"

definition fixture_game_min :: Game where
  "fixture_game_min = fixture_game_a\<lparr>Instances := - 9223372036854775808\<rparr>"

definition fixture_wrap :: env where
  "fixture_wrap =
     fixture_env
       \<lparr>configRead := Inr \<lparr>Games = [fixture_game_min], LaunchDelay = 1000\<rparr>,
        launch := (\<lambda>tr location flags. if tr = [] then Inr 7 else Inl ErrLaunch)\<rparr>"

text \<open>
  The environment of the fixture with the first installation alone and a launch delay of
  9223372036855 milliseconds, the least positive delay whose number of nanoseconds is
  beyond the range of \<^verbatim>\<open>time.Duration\<close>.
\<close>

definition fixture_long_delay :: env where
  "fixture_long_delay =
     fixture_mods\<lparr>configRead := Inr \<lparr>Games = [fixture_game_a], LaunchDelay = 9223372036855\<rparr>\<rparr>"

section \<open>Properties of the manifest diff\<close>

text \<open>
  The diff of a manifest is the concatenation of the diffs of its entries: the loop
  carries its accumulators through, and an error anywhere is the error of the whole.
\<close>

lemma getFilesToPatch_loop_Cons:
  "getFilesToPatch_loop E d p ign (f # files) acc t =
     (case getFilesToPatch_loop E d p ign [f] [] 0 of
        Inl e \<Rightarrow> Inl e
      | Inr (as, n) \<Rightarrow> getFilesToPatch_loop E d p ign files (acc @ as) (t + n))"
  by (simp split: sum.splits prod.splits option.splits)

lemma getFilesToPatch_loop_acc:
  "getFilesToPatch_loop E d p ign files acc t =
     (case getFilesToPatch_loop E d p ign files [] 0 of
        Inl e \<Rightarrow> Inl e
      | Inr (as, n) \<Rightarrow> Inr (acc @ as, t + n))"
proof (induction files arbitrary: acc t)
  case Nil
  show ?case by simp
next
  case (Cons f files)
  show ?case
    apply (subst getFilesToPatch_loop_Cons)
    apply (subst (2) getFilesToPatch_loop_Cons)
    apply (cases "getFilesToPatch_loop E d p ign [f] [] 0")
     apply simp
    apply (simp only: sum.case prod.case split: prod.splits)
    apply (subst Cons.IH)
    apply (subst (2) Cons.IH)
    apply (auto split: sum.splits prod.splits simp: add.assoc)
    done
qed

lemma getFilesToPatch_loop_append:
  "getFilesToPatch_loop E d p ign (xs @ ys) [] 0 =
     (case getFilesToPatch_loop E d p ign xs [] 0 of
        Inl e \<Rightarrow> Inl e
      | Inr (a1, n1) \<Rightarrow>
         (case getFilesToPatch_loop E d p ign ys [] 0 of
            Inl e \<Rightarrow> Inl e
          | Inr (a2, n2) \<Rightarrow> Inr (a1 @ a2, n1 + n2)))"
proof (induction xs)
  case Nil
  show ?case by (simp split: sum.splits)
next
  case (Cons f xs)
  have unfold: "\<And>zs. getFilesToPatch_loop E d p ign (f # zs) [] 0 =
      (case getFilesToPatch_loop E d p ign [f] [] 0 of
         Inl e \<Rightarrow> Inl e
       | Inr (as, n) \<Rightarrow> getFilesToPatch_loop E d p ign zs ([] @ as) (0 + n))"
    by (rule getFilesToPatch_loop_Cons)
  show ?case
  proof (cases "getFilesToPatch_loop E d p ign [f] [] 0")
    case (Inl e)
    have "\<And>zs. getFilesToPatch_loop E d p ign (f # zs) [] 0 = Inl e"
      by (subst unfold) (simp only: Inl sum.case)
    then show ?thesis by (simp only: append_Cons sum.case)
  next
    case (Inr r)
    obtain a n where r: "r = (a, n)" by (cases r)
    have step: "\<And>zs. getFilesToPatch_loop E d p ign (f # zs) [] 0 =
        (case getFilesToPatch_loop E d p ign zs [] 0 of
           Inl e \<Rightarrow> Inl e | Inr (as, m) \<Rightarrow> Inr (a @ as, n + m))"
    proof -
      fix zs
      have "getFilesToPatch_loop E d p ign (f # zs) [] 0 = getFilesToPatch_loop E d p ign zs a n"
        by (subst unfold) (simp only: Inr r sum.case prod.case append_Nil add_0)
      then show "getFilesToPatch_loop E d p ign (f # zs) [] 0 =
        (case getFilesToPatch_loop E d p ign zs [] 0 of
           Inl e \<Rightarrow> Inl e | Inr (as, m) \<Rightarrow> Inr (a @ as, n + m))"
        by (simp only: getFilesToPatch_loop_acc [of E d p ign zs a n])
    qed
    show ?thesis
      by (simp only: append_Cons step Cons.IH)
         (simp split: sum.splits prod.splits add: add.assoc)
  qed
qed

lemma getFilesToPatch_split:
  assumes "getFilesToPatch E d (pre @ f # post) p ign = Inr (acts, n)"
  shows "\<exists>a1 n1 af nf a2 n2.
           getFilesToPatch E d pre p ign = Inr (a1, n1) \<and>
           getFilesToPatch E d [f] p ign = Inr (af, nf) \<and>
           getFilesToPatch E d post p ign = Inr (a2, n2) \<and>
           acts = a1 @ af @ a2 \<and> n = n1 + nf + n2"
proof -
  have "getFilesToPatch_loop E d p ign (pre @ ([f] @ post)) [] 0 = Inr (acts, n)"
    using assms by (simp only: getFilesToPatch_def append_Cons append_Nil)
  then show ?thesis
    unfolding getFilesToPatch_def
    by (simp only: getFilesToPatch_loop_append [of E d p ign pre]
          getFilesToPatch_loop_append [of E d p ign "[f]"])
       (auto split: sum.splits prod.splits simp del: getFilesToPatch_loop.simps simp: add.assoc)
qed

lemma ignored_iff: "ignored ign name = (name \<in> set ign)"
  by (auto simp: ignored_def list_ex_iff)

lemma getFilesToPatch_single_absent:
  assumes "name \<notin> set ign" "Name f = name" "\<not> Deprecated f" "lookup d p name = None"
  shows "getFilesToPatch E d [f] p ign =
     (if denied E (OpOpen p name) then Inl ErrIO
      else Inr ([\<lparr>Action = ActionDownload, File = f, D2Path = p, LocalCRC = []\<rparr>], ContentLength f))"
  using assms by (simp add: getFilesToPatch_def ignored_iff hashCRC32_def)

lemma getFilesToPatch_single_ignored:
  assumes "Name f \<in> set ign"
  shows "getFilesToPatch E d [f] p ign = Inr ([], 0)"
  using assms by (simp add: getFilesToPatch_def ignored_iff)

lemma getFilesToPatch_single_deprecated:
  assumes "Name f \<notin> set ign" "Deprecated f"
  shows "getFilesToPatch E d [f] p ign =
     (if denied E (OpStat p (Name f)) then Inl ErrIO
      else case lookup d p (Name f) of
        None \<Rightarrow> Inr ([], 0)
      | Some c \<Rightarrow>
          if denied E (OpOpen p (Name f)) then Inl ErrIO
          else Inr ([\<lparr>Action = ActionDelete, File = f, D2Path = p, LocalCRC = checksum E c\<rparr>], 0))"
  using assms
  by (simp add: getFilesToPatch_def ignored_iff hashCRC32_def fileExistsOnDisk_def os_Stat_def
        os_IsNotExist_def split: option.splits)

lemma getFilesToPatch_single_ignoreCRC:
  assumes "Name f \<notin> set ign" "\<not> Deprecated f" "IgnoreCRC f" "lookup d p (Name f) = Some c"
  shows "getFilesToPatch E d [f] p ign =
     (if denied E (OpOpen p (Name f)) then Inl ErrIO else Inr ([], 0))"
  using assms
  by (simp add: getFilesToPatch_def ignored_iff hashCRC32_def)

text \<open>
  Claim C2. A manifest entry that is not in the ignore list, is not deprecated and
  whose file is absent from the install directory gives exactly one action at its place
  in the result, a \<^verbatim>\<open>Download\<close> of that entry, and adds exactly its \<^verbatim>\<open>ContentLength\<close> to
  the total (an \<^verbatim>\<open>int64\<close> sum): the result of a diff that returns without error is the
  diff of the entries before, this one action, and the diff of the entries after.
\<close>

theorem absent_entry_one_download:
  assumes "getFilesToPatch E d (pre @ f # post) d2path filesToIgnore = Inr (actions, totalLength)"
    and "Name f \<notin> set filesToIgnore"
    and "\<not> Deprecated f"
    and "lookup d d2path (Name f) = None"
  shows "\<exists>a1 n1 a2 n2 a.
           getFilesToPatch E d pre d2path filesToIgnore = Inr (a1, n1) \<and>
           getFilesToPatch E d post d2path filesToIgnore = Inr (a2, n2) \<and>
           actions = a1 @ [a] @ a2 \<and>
           Action a = ActionDownload \<and> File a = f \<and> D2Path a = d2path \<and>
           totalLength = n1 + ContentLength f + n2"
proof -
  from getFilesToPatch_split [OF assms(1)] obtain a1 n1 af nf a2 n2 where
    s: "getFilesToPatch E d pre d2path filesToIgnore = Inr (a1, n1)"
       "getFilesToPatch E d [f] d2path filesToIgnore = Inr (af, nf)"
       "getFilesToPatch E d post d2path filesToIgnore = Inr (a2, n2)"
       "actions = a1 @ af @ a2" "totalLength = n1 + nf + n2"
    by blast
  from s(2) getFilesToPatch_single_absent [OF assms(2) refl assms(3) assms(4), of E]
  have "af = [\<lparr>Action = ActionDownload, File = f, D2Path = d2path, LocalCRC = []\<rparr>]"
    and "nf = ContentLength f"
    by (auto split: if_splits)
  with s show ?thesis by auto
qed

theorem absent_entry_one_download_witness:
  "getFilesToPatch fixture_env (one_dir ''C:/D2'' [(''Game.exe'', ''g1'')])
       ([entry ''Game.exe'' ''g1'' 10 False False] @ entry ''D2Client.dll'' ''c1'' 25 False False
          # [entry ''BH.dll'' ''b1'' 7 False False]) ''C:/D2'' []
     = Inr ([\<lparr>Action = ActionDownload, File = entry ''D2Client.dll'' ''c1'' 25 False False,
              D2Path = ''C:/D2'', LocalCRC = []\<rparr>,
             \<lparr>Action = ActionDownload, File = entry ''BH.dll'' ''b1'' 7 False False,
              D2Path = ''C:/D2'', LocalCRC = []\<rparr>], 32)
   \<and> (\<exists>a1 n1 a2 n2 a.
         getFilesToPatch fixture_env (one_dir ''C:/D2'' [(''Game.exe'', ''g1'')])
           [entry ''Game.exe'' ''g1'' 10 False False] ''C:/D2'' [] = Inr (a1, n1) \<and>
         getFilesToPatch fixture_env (one_dir ''C:/D2'' [(''Game.exe'', ''g1'')])
           [entry ''BH.dll'' ''b1'' 7 False False] ''C:/D2'' [] = Inr (a2, n2) \<and>
         [\<lparr>Action = ActionDownload, File = entry ''D2Client.dll'' ''c1'' 25 False False,
              D2Path = ''C:/D2'', LocalCRC = []\<rparr>,
             \<lparr>Action = ActionDownload, File = entry ''BH.dll'' ''b1'' 7 False False,
              D2Path = ''C:/D2'', LocalCRC = []\<rparr>] = a1 @ [a] @ a2 \<and>
         Action a = ActionDownload \<and> File a = entry ''D2Client.dll'' ''c1'' 25 False False \<and>
         D2Path a = ''C:/D2'' \<and>
         (32 :: 64 word) = n1 + ContentLength (entry ''D2Client.dll'' ''c1'' 25 False False) + n2)"
proof -
  have run: "getFilesToPatch fixture_env (one_dir ''C:/D2'' [(''Game.exe'', ''g1'')])
       ([entry ''Game.exe'' ''g1'' 10 False False] @ entry ''D2Client.dll'' ''c1'' 25 False False
          # [entry ''BH.dll'' ''b1'' 7 False False]) ''C:/D2'' []
     = Inr ([\<lparr>Action = ActionDownload, File = entry ''D2Client.dll'' ''c1'' 25 False False,
              D2Path = ''C:/D2'', LocalCRC = []\<rparr>,
             \<lparr>Action = ActionDownload, File = entry ''BH.dll'' ''b1'' 7 False False,
              D2Path = ''C:/D2'', LocalCRC = []\<rparr>], 32)"
    by (simp add: getFilesToPatch_def fixture_env_def one_dir_def entry_def ignored_def
          fileExistsOnDisk_def os_Stat_def hashCRC32_def lookup_def)
  have h2: "Name (entry ''D2Client.dll'' ''c1'' 25 False False) \<notin> set []" by simp
  have h3: "\<not> Deprecated (entry ''D2Client.dll'' ''c1'' 25 False False)" by (simp add: entry_def)
  have h4: "lookup (one_dir ''C:/D2'' [(''Game.exe'', ''g1'')]) ''C:/D2''
              (Name (entry ''D2Client.dll'' ''c1'' 25 False False)) = None"
    by (simp add: lookup_def one_dir_def entry_def)
  show ?thesis
    using run absent_entry_one_download [OF run h2 h3 h4] by simp
qed

text \<open>
  Claim C3. A deprecated manifest entry that is not in the ignore list gives, at its
  place in the result of a diff that returns without error, exactly one \<^verbatim>\<open>Delete\<close> action
  carrying the checksum of the local copy when the file is present on disk, and no
  action when the file is absent; it adds nothing to the total.
\<close>

theorem deprecated_entry_delete_iff_present:
  assumes "getFilesToPatch E d (pre @ f # post) d2path filesToIgnore = Inr (actions, totalLength)"
    and "Name f \<notin> set filesToIgnore"
    and "Deprecated f"
  shows "\<exists>a1 n1 a2 n2.
           getFilesToPatch E d pre d2path filesToIgnore = Inr (a1, n1) \<and>
           getFilesToPatch E d post d2path filesToIgnore = Inr (a2, n2) \<and>
           totalLength = n1 + n2 \<and>
           actions = a1 @
             (case lookup d d2path (Name f) of
                None \<Rightarrow> []
              | Some c \<Rightarrow> [\<lparr>Action = ActionDelete, File = f, D2Path = d2path,
                             LocalCRC = checksum E c\<rparr>]) @ a2"
proof -
  from getFilesToPatch_split [OF assms(1)] obtain a1 n1 af nf a2 n2 where
    s: "getFilesToPatch E d pre d2path filesToIgnore = Inr (a1, n1)"
       "getFilesToPatch E d [f] d2path filesToIgnore = Inr (af, nf)"
       "getFilesToPatch E d post d2path filesToIgnore = Inr (a2, n2)"
       "actions = a1 @ af @ a2" "totalLength = n1 + nf + n2"
    by blast
  from s(2) getFilesToPatch_single_deprecated [OF assms(2) assms(3), of E d d2path]
  have "nf = 0"
    and "af = (case lookup d d2path (Name f) of
                None \<Rightarrow> []
              | Some c \<Rightarrow> [\<lparr>Action = ActionDelete, File = f, D2Path = d2path,
                             LocalCRC = checksum E c\<rparr>])"
    by (auto split: if_splits option.splits)
  with s show ?thesis by auto
qed

theorem deprecated_entry_delete_iff_present_witness:
  "getFilesToPatch fixture_env (one_dir ''C:/D2'' [(''old.dll'', ''o1'')])
       ([] @ entry ''old.dll'' ''o0'' 4 False True # [entry ''gone.dll'' ''x'' 5 False True])
       ''C:/D2'' []
     = Inr ([\<lparr>Action = ActionDelete, File = entry ''old.dll'' ''o0'' 4 False True,
              D2Path = ''C:/D2'', LocalCRC = ''o1''\<rparr>], 0)
   \<and> (\<exists>a1 n1 a2 n2.
         getFilesToPatch fixture_env (one_dir ''C:/D2'' [(''old.dll'', ''o1'')]) []
           ''C:/D2'' [] = Inr (a1, n1) \<and>
         getFilesToPatch fixture_env (one_dir ''C:/D2'' [(''old.dll'', ''o1'')])
           [entry ''gone.dll'' ''x'' 5 False True] ''C:/D2'' [] = Inr (a2, n2) \<and>
         (0 :: 64 word) = n1 + n2 \<and>
         [\<lparr>Action = ActionDelete, File = entry ''old.dll'' ''o0'' 4 False True,
              D2Path = ''C:/D2'', LocalCRC = ''o1''\<rparr>]
           = a1 @ [\<lparr>Action = ActionDelete, File = entry ''old.dll'' ''o0'' 4 False True,
                     D2Path = ''C:/D2'', LocalCRC = ''o1''\<rparr>] @ a2)"
proof -
  let ?d = "one_dir ''C:/D2'' [(''old.dll'', ''o1'')]"
  let ?f = "entry ''old.dll'' ''o0'' 4 False True"
  have run: "getFilesToPatch fixture_env ?d
       ([] @ ?f # [entry ''gone.dll'' ''x'' 5 False True]) ''C:/D2'' []
     = Inr ([\<lparr>Action = ActionDelete, File = ?f, D2Path = ''C:/D2'', LocalCRC = ''o1''\<rparr>], 0)"
    by (simp add: getFilesToPatch_def fixture_env_def one_dir_def entry_def ignored_def
          fileExistsOnDisk_def os_Stat_def os_IsNotExist_def hashCRC32_def lookup_def)
  have h2: "Name ?f \<notin> set []" by simp
  have h3: "Deprecated ?f" by (simp add: entry_def)
  have l: "lookup ?d ''C:/D2'' (Name ?f) = Some ''o1''"
    by (simp add: lookup_def one_dir_def entry_def)
  have c: "checksum fixture_env ''o1'' = ''o1''" by (simp add: fixture_env_def)
  show ?thesis
    using run deprecated_entry_delete_iff_present [OF run h2 h3] by (simp add: l c)
qed

text \<open>
  Claim C4, as it is stated, fails for an entry that the caller's ignore list names: a
  deprecated \<^verbatim>\<open>ignoreChecksum\<close> entry present on disk is then skipped before the deprecated
  check, and no \<^verbatim>\<open>Delete\<close> is emitted.
\<close>

theorem ignoreCRC_entry_in_ignore_list_counterexample:
  "IgnoreCRC (entry ''BH.cfg'' ''c0'' 3 True True) \<and>
   Deprecated (entry ''BH.cfg'' ''c0'' 3 True True) \<and>
   lookup (one_dir ''C:/D2'' [(''BH.cfg'', ''mine'')]) ''C:/D2''
     (Name (entry ''BH.cfg'' ''c0'' 3 True True)) = Some ''mine'' \<and>
   getFilesToPatch fixture_env (one_dir ''C:/D2'' [(''BH.cfg'', ''mine'')])
     [entry ''BH.cfg'' ''c0'' 3 True True] ''C:/D2'' [''BH.cfg''] = Inr ([], 0)"
  by (simp add: getFilesToPatch_def one_dir_def entry_def ignored_def lookup_def)

text \<open>
  Claim C4, amended. A manifest entry with \<^verbatim>\<open>ignoreChecksum\<close> whose file exists on disk
  gives no \<^verbatim>\<open>Download\<close> action, and gives a \<^verbatim>\<open>Delete\<close> action exactly when it is deprecated
  and not in the ignore list: the deprecated check comes before the ignore-checksum
  short-circuit, and after the ignore list.
\<close>

theorem ignoreCRC_entry_only_deleted_when_deprecated:
  assumes "getFilesToPatch E d (pre @ f # post) d2path filesToIgnore = Inr (actions, totalLength)"
    and "IgnoreCRC f"
    and "lookup d d2path (Name f) = Some c"
  shows "\<exists>a1 n1 a2 n2.
           getFilesToPatch E d pre d2path filesToIgnore = Inr (a1, n1) \<and>
           getFilesToPatch E d post d2path filesToIgnore = Inr (a2, n2) \<and>
           totalLength = n1 + n2 \<and>
           actions = a1 @
             (if Deprecated f \<and> Name f \<notin> set filesToIgnore
              then [\<lparr>Action = ActionDelete, File = f, D2Path = d2path,
                      LocalCRC = checksum E c\<rparr>]
              else []) @ a2"
proof -
  from getFilesToPatch_split [OF assms(1)] obtain a1 n1 af nf a2 n2 where
    s: "getFilesToPatch E d pre d2path filesToIgnore = Inr (a1, n1)"
       "getFilesToPatch E d [f] d2path filesToIgnore = Inr (af, nf)"
       "getFilesToPatch E d post d2path filesToIgnore = Inr (a2, n2)"
       "actions = a1 @ af @ a2" "totalLength = n1 + nf + n2"
    by blast
  have "nf = 0 \<and> af = (if Deprecated f \<and> Name f \<notin> set filesToIgnore
              then [\<lparr>Action = ActionDelete, File = f, D2Path = d2path,
                      LocalCRC = checksum E c\<rparr>]
              else [])"
  proof (cases "Name f \<in> set filesToIgnore")
    case True
    with s(2) getFilesToPatch_single_ignored [OF True, of E d d2path] show ?thesis by simp
  next
    case notign: False
    show ?thesis
    proof (cases "Deprecated f")
      case True
      with s(2) getFilesToPatch_single_deprecated [OF notign True, of E d d2path] assms(3) notign
      show ?thesis by (auto split: if_splits)
    next
      case False
      with s(2) getFilesToPatch_single_ignoreCRC [OF notign False assms(2) assms(3), of E]
      show ?thesis by (auto split: if_splits)
    qed
  qed
  with s show ?thesis by auto
qed

theorem ignoreCRC_entry_only_deleted_when_deprecated_witness:
  "getFilesToPatch fixture_env
       (one_dir ''C:/D2'' [(''BH.cfg'', ''mine''), (''old.cfg'', ''o1'')])
       ([entry ''BH.cfg'' ''c0'' 3 True False] @ entry ''old.cfg'' ''o0'' 4 True True # [])
       ''C:/D2'' []
     = Inr ([\<lparr>Action = ActionDelete, File = entry ''old.cfg'' ''o0'' 4 True True,
              D2Path = ''C:/D2'', LocalCRC = ''o1''\<rparr>], 0)
   \<and> (\<exists>a1 n1 a2 n2.
         getFilesToPatch fixture_env
           (one_dir ''C:/D2'' [(''BH.cfg'', ''mine''), (''old.cfg'', ''o1'')])
           [entry ''BH.cfg'' ''c0'' 3 True False] ''C:/D2'' [] = Inr (a1, n1) \<and>
         getFilesToPatch fixture_env
           (one_dir ''C:/D2'' [(''BH.cfg'', ''mine''), (''old.cfg'', ''o1'')])
           [] ''C:/D2'' [] = Inr (a2, n2) \<and>
         (0 :: 64 word) = n1 + n2 \<and>
         [\<lparr>Action = ActionDelete, File = entry ''old.cfg'' ''o0'' 4 True True,
              D2Path = ''C:/D2'', LocalCRC = ''o1''\<rparr>]
           = a1 @ [\<lparr>Action = ActionDelete, File = entry ''old.cfg'' ''o0'' 4 True True,
                     D2Path = ''C:/D2'', LocalCRC = ''o1''\<rparr>] @ a2)"
proof -
  let ?d = "one_dir ''C:/D2'' [(''BH.cfg'', ''mine''), (''old.cfg'', ''o1'')]"
  let ?f = "entry ''old.cfg'' ''o0'' 4 True True"
  have run: "getFilesToPatch fixture_env ?d
       ([entry ''BH.cfg'' ''c0'' 3 True False] @ ?f # []) ''C:/D2'' []
     = Inr ([\<lparr>Action = ActionDelete, File = ?f, D2Path = ''C:/D2'', LocalCRC = ''o1''\<rparr>], 0)"
    by (simp add: getFilesToPatch_def fixture_env_def one_dir_def entry_def ignored_def
          fileExistsOnDisk_def os_Stat_def os_IsNotExist_def hashCRC32_def lookup_def)
  have h2: "IgnoreCRC ?f" by (simp add: entry_def)
  have l: "lookup ?d ''C:/D2'' (Name ?f) = Some ''o1''"
    by (simp add: lookup_def one_dir_def entry_def)
  have dep: "Deprecated ?f" by (simp add: entry_def)
  have c: "checksum fixture_env ''o1'' = ''o1''" by (simp add: fixture_env_def)
  show ?thesis
    using run ignoreCRC_entry_only_deleted_when_deprecated [OF run h2 l] by (simp add: dep c)
qed

section \<open>Properties of the patch applier and of the cleanup\<close>

lemma map_of_filter_fst:
  "map_of (filter (\<lambda>e. fst e \<noteq> n) xs) n' = (if n' = n then None else map_of xs n')"
  by (induction xs) auto

lemma lookup_write_file:
  "lookup (write_file d dir n c) dir' n' =
     (if dir' = dir \<and> n' = n then Some c else lookup d dir' n')"
  by (simp add: lookup_def write_file_def map_of_filter_fst)

lemma lookup_remove_file:
  "lookup (remove_file d dir n) dir' n' =
     (if dir' = dir \<and> n' = n then None else lookup d dir' n')"
  by (simp add: lookup_def remove_file_def map_of_filter_fst)

lemma os_Remove_ok:
  assumes "os_Remove E d dir n = (None, d')"
  shows "lookup d' dir' n' = (if dir' = dir \<and> n' = n then None else lookup d dir' n')"
  using assms by (auto simp: os_Remove_def lookup_remove_file split: if_splits)

lemma os_Remove_err:
  assumes "os_Remove E d dir n = (Some e, d')"
  shows "d' = d"
  using assms by (auto simp: os_Remove_def split: if_splits)

lemma cleanUp_loop_ok:
  assumes "cleanUp_loop E dir files d = (None, d')"
  shows "lookup d' dir' n =
     (if dir' = dir \<and> n \<in> set files \<and> strings_Contains n ''.tmp'' then None
      else lookup d dir' n)"
  using assms
proof (induction files arbitrary: d)
  case Nil
  then show ?case by simp
next
  case (Cons fileName files)
  show ?case
  proof (cases "strings_Contains fileName ''.tmp''")
    case False
    with Cons.prems have "cleanUp_loop E dir files d = (None, d')" by simp
    from Cons.IH [OF this] False show ?thesis by auto
  next
    case True
    obtain r d1 where rm: "os_Remove E d dir fileName = (r, d1)" by (cases "os_Remove E d dir fileName")
    with True Cons.prems have r: "r = None" and rest: "cleanUp_loop E dir files d1 = (None, d')"
      by (auto split: option.splits)
    from Cons.IH [OF rest] os_Remove_ok [OF rm [unfolded r]] True
    show ?thesis by auto
  qed
qed

lemma lookup_None_iff: "lookup d dir n = None \<longleftrightarrow> n \<notin> fst ` set (d dir)"
  by (simp add: lookup_def map_of_eq_None_iff)

lemma cleanUpFailedPatch_ok:
  assumes "cleanUpFailedPatch E d dir = (None, d')"
  shows "lookup d' dir' n =
     (if dir' = dir \<and> strings_Contains n ''.tmp'' then None else lookup d dir' n)"
proof -
  from assms have "cleanUp_loop E dir (sort (remdups (map fst (d dir)))) d = (None, d')"
    by (auto simp: cleanUpFailedPatch_def ioutil_ReadDir_def split: if_splits)
  from cleanUp_loop_ok [OF this, of dir' n] show ?thesis
    using lookup_None_iff [of d dir n] by auto
qed

lemma downloadFile_frame:
  assumes "downloadFile E d fileName remoteDir dir tmpName = (r, d')" "n \<noteq> tmpName"
  shows "lookup d' dir' n = lookup d dir' n"
  using assms
  by (auto simp: downloadFile_def Let_def lookup_write_file split: if_splits sum.splits)

lemma deleteFile_frame:
  assumes "deleteFile E d fileName path = (r, d')" "n \<noteq> fileName"
  shows "lookup d' dir' n = lookup d dir' n"
  using assms
  by (auto simp: deleteFile_def os_Remove_def lookup_remove_file split: if_splits option.splits)

lemma doPatch_actions_frame:
  assumes "doPatch_actions E remoteDir path patchFiles tmpFiles d = (r, d')"
    and "\<forall>a \<in> set patchFiles. Action a = ActionDownload \<longrightarrow> n \<noteq> Name (File a) @ ''.tmp''"
    and "\<forall>a \<in> set patchFiles. Action a = ActionDelete \<longrightarrow> n \<noteq> Name (File a)"
  shows "lookup d' dir' n = lookup d dir' n"
  using assms
proof (induction patchFiles arbitrary: tmpFiles d)
  case Nil
  then show ?case by simp
next
  case (Cons action patchFiles)
  show ?case
  proof (cases "Action action")
    case ActionDownload
    obtain e d1 where dl:
      "downloadFile E d (Name (File action)) remoteDir path (Name (File action) @ ''.tmp'') = (e, d1)"
      by (cases "downloadFile E d (Name (File action)) remoteDir path (Name (File action) @ ''.tmp'')")
    from Cons.prems(2) ActionDownload have ne: "n \<noteq> Name (File action) @ ''.tmp''" by simp
    note f1 = downloadFile_frame [OF dl ne, of dir']
    show ?thesis
    proof (cases e)
      case (Some err)
      with Cons.prems(1) ActionDownload dl have "d' = d1" by (simp add: Let_def)
      with f1 show ?thesis by simp
    next
      case None
      with Cons.prems(1) ActionDownload dl
      have "doPatch_actions E remoteDir path patchFiles
              (tmpFiles @ [Name (File action) @ ''.tmp'']) d1 = (r, d')"
        by (simp add: Let_def)
      from Cons.IH [OF this] Cons.prems(2,3) f1 show ?thesis by simp
    qed
  next
    case ActionDelete
    obtain e d1 where dl: "deleteFile E d (Name (File action)) path = (e, d1)"
      by (cases "deleteFile E d (Name (File action)) path")
    from Cons.prems(3) ActionDelete have ne: "n \<noteq> Name (File action)" by simp
    note f1 = deleteFile_frame [OF dl ne, of dir']
    show ?thesis
    proof (cases e)
      case (Some err)
      with Cons.prems(1) ActionDelete dl have "d' = d1" by (simp add: Let_def)
      with f1 show ?thesis by simp
    next
      case None
      with Cons.prems(1) ActionDelete dl
      have "doPatch_actions E remoteDir path patchFiles tmpFiles d1 = (r, d')"
        by (simp add: Let_def)
      from Cons.IH [OF this] Cons.prems(2,3) f1 show ?thesis by simp
    qed
  qed
qed

lemma strings_Contains_suffix: "suffix sub s \<Longrightarrow> strings_Contains s sub"
  by (simp add: strings_Contains_def suffix_imp_sublist)

text \<open>
  What a failure in the first loop of \<^verbatim>\<open>doPatch\<close> leaves: no rename has happened, and
  after a cleanup that returns without error no file with the suffix \<^verbatim>\<open>.tmp\<close> is left,
  while every file whose name does not contain \<^verbatim>\<open>.tmp\<close> and that no \<^verbatim>\<open>Delete\<close> action names
  is as it was before the patch.
\<close>

lemma failed_patch_leaves_final_files:
  assumes "doPatch_actions E remoteDir path patchFiles [] d = (Inl err, d1)"
    and "cleanUpFailedPatch E d1 path = (None, d2)"
  shows "doPatch E d patchFiles remoteDir path = (Some err, d1)"
    and "suffix ''.tmp'' n \<Longrightarrow> lookup d2 path n = None"
    and "\<not> strings_Contains n ''.tmp'' \<Longrightarrow>
         \<forall>a \<in> set patchFiles. Action a = ActionDelete \<longrightarrow> n \<noteq> Name (File a) \<Longrightarrow>
         lookup d2 path n = lookup d path n"
proof -
  show "doPatch E d patchFiles remoteDir path = (Some err, d1)"
    using assms(1) by (simp add: doPatch_def)
  show "suffix ''.tmp'' n \<Longrightarrow> lookup d2 path n = None"
    using cleanUpFailedPatch_ok [OF assms(2), of path n] strings_Contains_suffix by simp
  assume nc: "\<not> strings_Contains n ''.tmp''"
    and nd: "\<forall>a \<in> set patchFiles. Action a = ActionDelete \<longrightarrow> n \<noteq> Name (File a)"
  have "\<forall>a \<in> set patchFiles. Action a = ActionDownload \<longrightarrow> n \<noteq> Name (File a) @ ''.tmp''"
    using nc strings_Contains_suffix [of "''.tmp''" n] by (auto simp: suffix_def)
  from doPatch_actions_frame [OF assms(1) this nd, of path]
  show "lookup d2 path n = lookup d path n"
    using cleanUpFailedPatch_ok [OF assms(2), of path n] nc by simp
qed

lemma fixture_hd_diff:
  "getFilesToPatch fixture_remote (one_dir ''C:/D2'' fixture_hd_dir) fixture_hd_files ''C:/D2'' [] =
     Inr ([\<lparr>Action = ActionDownload, File = entry ''D2HD.dll'' ''h1'' 2 False False,
             D2Path = ''C:/D2'', LocalCRC = ''h0''\<rparr>,
           \<lparr>Action = ActionDownload, File = entry ''D2HD.mpq'' ''m1'' 2 False False,
             D2Path = ''C:/D2'', LocalCRC = []\<rparr>], 4)"
  by (simp add: getFilesToPatch_def fixture_remote_def fixture_env_def one_dir_def
        fixture_hd_dir_def fixture_hd_files_def entry_def ignored_def hashCRC32_def lookup_def)

lemma contains_tmp1: "strings_Contains ''skin.tmpl'' ''.tmp''"
  unfolding strings_Contains_def by code_simp
lemma contains_tmp2: "strings_Contains ''D2HD.dll.tmp'' ''.tmp''"
  unfolding strings_Contains_def by code_simp
lemma contains_tmp3: "\<not> strings_Contains ''D2HD.dll'' ''.tmp''"
  unfolding strings_Contains_def by code_simp
lemma contains_tmp4: "strings_Contains ''D2HD.mpq.tmp'' ''.tmp''"
  unfolding strings_Contains_def by code_simp

text \<open>
  Claim C1. The claim has every already-correct final file unchanged after a failed
  patch and its cleanup. The code is evaluated on the HD manifest of the fixture:
  \<^verbatim>\<open>skin.tmpl\<close> is up to date and gets no action, the download of \<^verbatim>\<open>D2HD.dll\<close> succeeds,
  the download of \<^verbatim>\<open>D2HD.mpq\<close> fails. \<^verbatim>\<open>doPatch\<close> returns the error with no \<^verbatim>\<open>.tmp\<close> file
  renamed and \<^verbatim>\<open>D2HD.dll\<close> as it was; the cleanup that \<^verbatim>\<open>applyHDMod\<close> runs then removes
  both \<^verbatim>\<open>.tmp\<close> files, and also the up-to-date \<^verbatim>\<open>skin.tmpl\<close>, because
  \<^verbatim>\<open>cleanUpFailedPatch\<close> tests \<^verbatim>\<open>strings.Contains(fileName, ".tmp")\<close>.
\<close>

theorem failed_patch_cleanup_removes_up_to_date_file:
  "getFilesToPatch fixture_remote (one_dir ''C:/D2'' fixture_hd_dir) fixture_hd_files ''C:/D2'' [] =
     Inr ([\<lparr>Action = ActionDownload, File = entry ''D2HD.dll'' ''h1'' 2 False False,
             D2Path = ''C:/D2'', LocalCRC = ''h0''\<rparr>,
           \<lparr>Action = ActionDownload, File = entry ''D2HD.mpq'' ''m1'' 2 False False,
             D2Path = ''C:/D2'', LocalCRC = []\<rparr>], 4) \<and>
   doPatch fixture_remote (one_dir ''C:/D2'' fixture_hd_dir)
     [\<lparr>Action = ActionDownload, File = entry ''D2HD.dll'' ''h1'' 2 False False,
        D2Path = ''C:/D2'', LocalCRC = ''h0''\<rparr>,
      \<lparr>Action = ActionDownload, File = entry ''D2HD.mpq'' ''m1'' 2 False False,
        D2Path = ''C:/D2'', LocalCRC = []\<rparr>] ''hd_v1'' ''C:/D2'' =
     (Some ErrTransport,
      one_dir ''C:/D2'' [(''D2HD.mpq.tmp'', []), (''D2HD.dll.tmp'', ''h1''),
                         (''D2HD.dll'', ''h0''), (''skin.tmpl'', ''s1'')]) \<and>
   applyHDMod fixture_remote (one_dir ''C:/D2'' fixture_hd_dir) ''C:/D2'' ''v1'' fixture_hd_files =
     (Some ErrTransport, one_dir ''C:/D2'' [(''D2HD.dll'', ''h0'')])"
proof -
  let ?acts = "[\<lparr>Action = ActionDownload, File = entry ''D2HD.dll'' ''h1'' 2 False False,
        D2Path = ''C:/D2'', LocalCRC = ''h0''\<rparr>,
      \<lparr>Action = ActionDownload, File = entry ''D2HD.mpq'' ''m1'' 2 False False,
        D2Path = ''C:/D2'', LocalCRC = []\<rparr>]"
  let ?d1 = "one_dir ''C:/D2'' [(''D2HD.mpq.tmp'', []), (''D2HD.dll.tmp'', ''h1''),
                         (''D2HD.dll'', ''h0''), (''skin.tmpl'', ''s1'')]"
  have patch: "doPatch fixture_remote (one_dir ''C:/D2'' fixture_hd_dir) ?acts ''hd_v1'' ''C:/D2'' =
     (Some ErrTransport, ?d1)"
    by (simp add: doPatch_def downloadFile_def fixture_remote_def fixture_env_def one_dir_def
          fixture_hd_dir_def entry_def write_file_def Let_def)
  have s: "sort [''D2HD.mpq.tmp'', ''D2HD.dll.tmp'', ''D2HD.dll'', ''skin.tmpl''] =
           [''D2HD.dll'', ''D2HD.dll.tmp'', ''D2HD.mpq.tmp'', ''skin.tmpl'']"
    by code_simp
  have clean: "cleanUpFailedPatch fixture_remote ?d1 ''C:/D2'' =
     (None, one_dir ''C:/D2'' [(''D2HD.dll'', ''h0'')])"
    by (simp add: cleanUpFailedPatch_def ioutil_ReadDir_def fixture_remote_def fixture_env_def
          one_dir_def s contains_tmp1 contains_tmp2 contains_tmp3 contains_tmp4 os_Remove_def
          lookup_def remove_file_def)
  show ?thesis
    by (simp add: fixture_hd_diff patch applyHDMod_def clean)
qed

text \<open>
  Claim C7. The claim has \<^verbatim>\<open>cleanUpFailedPatch\<close> remove exactly the files whose name ends
  with \<^verbatim>\<open>.tmp\<close>. The code is evaluated on a directory that holds \<^verbatim>\<open>skin.tmpl\<close>, whose name
  contains \<^verbatim>\<open>.tmp\<close> and does not end with it: the file is removed with the \<^verbatim>\<open>.tmp\<close> file.
\<close>

theorem cleanUpFailedPatch_removes_name_containing_tmp:
  "\<not> suffix ''.tmp'' ''skin.tmpl'' \<and>
   cleanUpFailedPatch fixture_env
     (one_dir ''C:/D2'' [(''D2HD.dll'', ''h0''), (''D2HD.dll.tmp'', ''h1''), (''skin.tmpl'', ''s1'')])
     ''C:/D2'' = (None, one_dir ''C:/D2'' [(''D2HD.dll'', ''h0'')])"
proof -
  have s: "sort [''D2HD.dll'', ''D2HD.dll.tmp'', ''skin.tmpl''] = [''D2HD.dll'', ''D2HD.dll.tmp'', ''skin.tmpl'']"
    by code_simp
  have n: "\<not> suffix ''.tmp'' ''skin.tmpl''" by code_simp
  show ?thesis
    by (simp add: n cleanUpFailedPatch_def ioutil_ReadDir_def fixture_env_def one_dir_def s
        contains_tmp1 contains_tmp2 contains_tmp3 os_Remove_def lookup_def remove_file_def)
qed

section \<open>The round trip of a diff\<close>

lemma getFilesToPatch_single:
  "getFilesToPatch E d [f] p ign =
     (if Name f \<in> set ign then Inr ([], 0)
      else if Deprecated f then
        (if denied E (OpStat p (Name f)) then Inl ErrIO
         else case lookup d p (Name f) of
           None \<Rightarrow> Inr ([], 0)
         | Some c \<Rightarrow>
             if denied E (OpOpen p (Name f)) then Inl ErrIO
             else Inr ([\<lparr>Action = ActionDelete, File = f, D2Path = p,
                         LocalCRC = checksum E c\<rparr>], 0))
      else if denied E (OpOpen p (Name f)) then Inl ErrIO
      else case lookup d p (Name f) of
        None \<Rightarrow> Inr ([\<lparr>Action = ActionDownload, File = f, D2Path = p, LocalCRC = []\<rparr>],
                     ContentLength f)
      | Some c \<Rightarrow>
          if IgnoreCRC f then Inr ([], 0)
          else if checksum E c \<noteq> CRC f
          then Inr ([\<lparr>Action = ActionDownload, File = f, D2Path = p,
                      LocalCRC = checksum E c\<rparr>], ContentLength f)
          else Inr ([], 0))"
  by (simp add: getFilesToPatch_def ignored_iff hashCRC32_def fileExistsOnDisk_def os_Stat_def
        os_IsNotExist_def split: option.splits)

lemma getFilesToPatch_Cons:
  "getFilesToPatch E d (f # files) p ign =
     (case getFilesToPatch E d [f] p ign of
        Inl e \<Rightarrow> Inl e
      | Inr (a1, n1) \<Rightarrow>
         (case getFilesToPatch E d files p ign of
            Inl e \<Rightarrow> Inl e
          | Inr (a2, n2) \<Rightarrow> Inr (a1 @ a2, n1 + n2)))"
  unfolding getFilesToPatch_def
  using getFilesToPatch_loop_append [of E d p ign "[f]" files]
  by (simp only: append_Cons append_Nil)

lemma getFilesToPatch_Nil: "getFilesToPatch E d [] p ign = Inr ([], 0)"
  by (simp add: getFilesToPatch_def)

text \<open>
  A diff returns without error exactly when the diff of each entry does, and its actions
  are those of the entries.
\<close>

lemma getFilesToPatch_entries:
  assumes "getFilesToPatch E d files p ign = Inr (acts, n)"
  shows "(\<forall>f \<in> set files. \<exists>af nf. getFilesToPatch E d [f] p ign = Inr (af, nf) \<and> set af \<subseteq> set acts)
       \<and> (\<forall>a \<in> set acts. \<exists>f \<in> set files. \<exists>af nf.
             getFilesToPatch E d [f] p ign = Inr (af, nf) \<and> a \<in> set af)"
  using assms
proof (induction files arbitrary: acts n)
  case Nil
  then show ?case by (simp add: getFilesToPatch_Nil)
next
  case (Cons f files)
  note eq = getFilesToPatch_Cons [of E d f files p ign]
  obtain a1 n1 where h: "getFilesToPatch E d [f] p ign = Inr (a1, n1)"
  proof (cases "getFilesToPatch E d [f] p ign")
    case (Inl e)
    with eq Cons.prems show ?thesis by (simp only: sum.case) simp
  next
    case (Inr r)
    with that show ?thesis by (cases r) blast
  qed
  obtain a2 n2 where t: "getFilesToPatch E d files p ign = Inr (a2, n2)"
  proof (cases "getFilesToPatch E d files p ign")
    case (Inl e)
    with eq h Cons.prems show ?thesis by (simp only: sum.case prod.case) simp
  next
    case (Inr r)
    with that show ?thesis by (cases r) blast
  qed
  have acts: "acts = a1 @ a2"
    using eq h t Cons.prems by (simp only: sum.case prod.case) simp
  note IH = Cons.IH [OF t]
  have 1: "\<forall>g \<in> set (f # files). \<exists>af nf. getFilesToPatch E d [g] p ign = Inr (af, nf) \<and>
             set af \<subseteq> set acts"
  proof
    fix g assume "g \<in> set (f # files)"
    then consider "g = f" | "g \<in> set files" by auto
    then show "\<exists>af nf. getFilesToPatch E d [g] p ign = Inr (af, nf) \<and> set af \<subseteq> set acts"
    proof cases
      case 1
      with h acts show ?thesis by auto
    next
      case 2
      with IH obtain af nf where "getFilesToPatch E d [g] p ign = Inr (af, nf)" "set af \<subseteq> set a2"
        by blast
      with acts show ?thesis by auto
    qed
  qed
  have 2: "\<forall>a \<in> set acts. \<exists>g \<in> set (f # files). \<exists>af nf.
             getFilesToPatch E d [g] p ign = Inr (af, nf) \<and> a \<in> set af"
  proof
    fix a assume "a \<in> set acts"
    with acts consider "a \<in> set a1" | "a \<in> set a2" by auto
    then show "\<exists>g \<in> set (f # files). \<exists>af nf.
             getFilesToPatch E d [g] p ign = Inr (af, nf) \<and> a \<in> set af"
    proof cases
      case 1
      with h show ?thesis by auto
    next
      case 2
      with IH obtain g af nf where "g \<in> set files"
        "getFilesToPatch E d [g] p ign = Inr (af, nf)" "a \<in> set af"
        by blast
      then show ?thesis by (intro bexI [where x = g]) auto
    qed
  qed
  from 1 2 show ?case by blast
qed

lemma getFilesToPatch_all_satisfied:
  assumes "\<forall>f \<in> set files. getFilesToPatch E d [f] p ign = Inr ([], 0)"
  shows "getFilesToPatch E d files p ign = Inr ([], 0)"
  using assms
proof (induction files)
  case Nil
  show ?case by (simp add: getFilesToPatch_Nil)
next
  case (Cons f files)
  then have "getFilesToPatch E d [f] p ign = Inr ([], 0)"
    and "getFilesToPatch E d files p ign = Inr ([], 0)"
    by simp_all
  then show ?case
    using getFilesToPatch_Cons [of E d f files p ign] by (simp only: sum.case prod.case) simp
qed

lemma actions_applied_frame:
  assumes "actions_applied E p acts d d'" and "\<forall>a \<in> set acts. name \<noteq> Name (File a)"
  shows "lookup d' p name = lookup d p name"
proof (cases "name \<in> fst ` set (d p @ d' p)")
  case True
  with assms show ?thesis unfolding actions_applied_def by blast
next
  case False
  then have "lookup d p name = None" "lookup d' p name = None"
    by (auto simp: lookup_None_iff)
  then show ?thesis by simp
qed

lemma actions_applied_download:
  assumes "actions_applied E p acts d d'" and "a \<in> set acts" and "Action a = ActionDownload"
  shows "\<exists>c. lookup d' p (Name (File a)) = Some c \<and> checksum E c = CRC (File a)"
  using assms unfolding actions_applied_def
  by (fastforce split: option.splits Action.splits)

lemma actions_applied_delete:
  assumes "actions_applied E p acts d d'" and "a \<in> set acts" and "Action a = ActionDelete"
  shows "lookup d' p (Name (File a)) = None"
  using assms unfolding actions_applied_def
  by (fastforce split: option.splits Action.splits)

lemma getFilesToPatch_single_File:
  assumes "getFilesToPatch E d [f] p ign = Inr (af, nf)" and "a \<in> set af"
  shows "File a = f"
  using assms
  by (auto simp: getFilesToPatch_single split: if_splits option.splits)

lemma distinct_Name_eq:
  assumes "distinct (map Name files)" "f \<in> set files" "g \<in> set files" "Name f = Name g"
  shows "f = g"
  using assms by (meson distinct_map inj_onD)

section \<open>Properties of mod reconciliation\<close>

lemma resetPatch_loop_ok:
  assumes "resetPatch_loop E path ign files d = (None, d')"
  shows "lookup d' dir' n =
     (if dir' = path \<and> n \<in> Name ` set files \<and> n \<notin> set ign then None
      else lookup d dir' n)"
  using assms
proof (induction files arbitrary: d)
  case Nil
  then show ?case by simp
next
  case (Cons f files)
  show ?case
  proof (cases "denied E (OpStat path (Name f))")
    case True
    with Cons.prems show ?thesis by (simp add: os_Stat_def os_IsNotExist_def)
  next
    case nd: False
    show ?thesis
    proof (cases "lookup d path (Name f)")
      case None
      with nd Cons.prems have "resetPatch_loop E path ign files d = (None, d')"
        by (simp add: os_Stat_def os_IsNotExist_def)
      from Cons.IH [OF this] None show ?thesis by auto
    next
      case (Some c)
      show ?thesis
      proof (cases "Name f \<in> set ign")
        case True
        with nd Some Cons.prems have "resetPatch_loop E path ign files d = (None, d')"
          by (simp add: os_Stat_def list_ex_iff)
        from Cons.IH [OF this] True show ?thesis by auto
      next
        case False
        obtain r d1 where rm: "os_Remove E d path (Name f) = (r, d1)"
          by (cases "os_Remove E d path (Name f)")
        with nd Some False Cons.prems
        have r: "r = None" and rest: "resetPatch_loop E path ign files d1 = (None, d')"
          by (auto simp: os_Stat_def list_ex_iff split: option.splits)
        from Cons.IH [OF rest] os_Remove_ok [OF rm [unfolded r]] False
        show ?thesis by auto
      qed
    qed
  qed
qed

lemma resetMaphackPatch_loop_pair:
  assumes "MaphackVersion game = A" "A \<noteq> B" "vs = [A, B] \<or> vs = [B, A]"
    and "getManifest E (''maphack_'' @ B @ ''/manifest.json'') = Inr man"
    and "isModInstalled E d (Location game) (ModMaphackIdentifier E) man = Inr True"
  shows "resetMaphackPatch_loop E game ign vs d = resetPatch E d (Location game) (Files man) ign"
  using assms
  by (cases "resetPatch E d (Location game) (Files man) ign")
     (auto split: option.splits)

lemma resetHDPatch_loop_pair:
  assumes "HDVersion game = A" "A \<noteq> B" "vs = [A, B] \<or> vs = [B, A]"
    and "getManifest E (''hd_'' @ B @ ''/manifest.json'') = Inr man"
    and "isModInstalled E d (Location game) (ModHDIdentifier E) man = Inr True"
  shows "resetHDPatch_loop E game vs d = resetPatch E d (Location game) (Files man) []"
  using assms
  by (cases "resetPatch E d (Location game) (Files man) []")
     (auto split: option.splits)

lemma resetPatch_ok:
  assumes "resetPatch E d path files ign = (None, d')"
    and "getFilesToPatch E d files path ign = Inr (acts, n)"
  shows "if length acts \<noteq> length files
         then \<forall>dir' name. lookup d' dir' name =
                (if dir' = path \<and> name \<in> Name ` set files \<and> name \<notin> set ign then None
                 else lookup d dir' name)
         else d' = d"
proof (cases "length acts \<noteq> length files")
  case True
  with assms have "resetPatch_loop E path ign files d = (None, d')"
    by (simp add: resetPatch_def)
  from resetPatch_loop_ok [OF this] True show ?thesis by simp
next
  case False
  with assms show ?thesis by (simp add: resetPatch_def)
qed

lemmas fixture_defs =
  fixture_mods_def fixture_env_def fixture_manifest_def fixture_game_a_def fixture_game_b_def
  fixture_games_def fixture_service_def one_dir_def entry_def

lemmas disk_defs =
  lookup_def os_Stat_def os_IsNotExist_def os_Remove_def remove_file_def write_file_def
  hashCRC32_def fileExistsOnDisk_def ignored_def

lemma fixture_getManifest_v2:
  "getManifest fixture_mods ''maphack_v2/manifest.json'' =
     Inr \<lparr>Files = [entry ''BH.dll'' ''b2'' 3 False False, entry ''BH.cfg'' ''c2'' 1 False False]\<rparr>"
  by (simp add: getManifest_def fixture_mods_def fixture_env_def fixture_manifest_def)

lemma fixture_getManifest_v1:
  "getManifest fixture_mods ''maphack_v1/manifest.json'' =
     Inr \<lparr>Files = [entry ''BH.dll'' ''b1'' 3 False False, entry ''BH.cfg'' ''c1'' 1 False False]\<rparr>"
  by (simp add: getManifest_def fixture_mods_def fixture_env_def fixture_manifest_def)

text \<open>
  Claim C5, as it is stated, fails when every entry of the manifest of \<open>B\<close> mismatches:
  \<^verbatim>\<open>resetPatch\<close> removes files only if the number of mismatched files differs from the
  number of manifest entries. Here the desired maphack \<^verbatim>\<open>v1\<close> is installed, \<^verbatim>\<open>v2\<close> is detected
  as installed through the marker file \<^verbatim>\<open>BH.dll\<close> that both versions share, both files of
  the manifest of \<^verbatim>\<open>v2\<close> exist on disk and mismatch it, and the reset removes nothing.
\<close>

theorem reset_keeps_files_when_every_entry_mismatches_counterexample:
  "MaphackVersion fixture_game_a = ''v1'' \<and>
   getManifest fixture_mods ''maphack_v2/manifest.json'' =
     Inr \<lparr>Files = [entry ''BH.dll'' ''b2'' 3 False False, entry ''BH.cfg'' ''c2'' 1 False False]\<rparr> \<and>
   isModInstalled fixture_mods (one_dir ''C:/D2a'' [(''BH.dll'', ''b1''), (''BH.cfg'', ''c1'')])
     (Location fixture_game_a) (ModMaphackIdentifier fixture_mods)
     \<lparr>Files = [entry ''BH.dll'' ''b2'' 3 False False, entry ''BH.cfg'' ''c2'' 1 False False]\<rparr>
     = Inr True \<and>
   resetMaphackPatch fixture_mods (one_dir ''C:/D2a'' [(''BH.dll'', ''b1''), (''BH.cfg'', ''c1'')])
     fixture_service fixture_game_a [] =
     (None, one_dir ''C:/D2a'' [(''BH.dll'', ''b1''), (''BH.cfg'', ''c1'')],
      fixture_service\<lparr>availableMods := Some \<lparr>HD = [], Maphack = [''v1'', ''v2'']\<rparr>\<rparr>)"
proof -
  have i: "isModInstalled fixture_mods (one_dir ''C:/D2a'' [(''BH.dll'', ''b1''), (''BH.cfg'', ''c1'')])
     ''C:/D2a'' ''BH.dll''
     \<lparr>Files = [entry ''BH.dll'' ''b2'' 3 False False, entry ''BH.cfg'' ''c2'' 1 False False]\<rparr>
     = Inr True"
    by (simp add: isModInstalled_def fixture_defs disk_defs)
  have g: "getFilesToPatch fixture_mods (one_dir ''C:/D2a'' [(''BH.dll'', ''b1''), (''BH.cfg'', ''c1'')])
      [entry ''BH.dll'' ''b2'' 3 False False, entry ''BH.cfg'' ''c2'' 1 False False] ''C:/D2a'' [] =
      Inr ([\<lparr>Action = ActionDownload, File = entry ''BH.dll'' ''b2'' 3 False False,
              D2Path = ''C:/D2a'', LocalCRC = ''b1''\<rparr>,
            \<lparr>Action = ActionDownload, File = entry ''BH.cfg'' ''c2'' 1 False False,
              D2Path = ''C:/D2a'', LocalCRC = ''c1''\<rparr>], 4)"
    by (simp add: getFilesToPatch_def fixture_defs disk_defs)
  have r: "resetPatch fixture_mods (one_dir ''C:/D2a'' [(''BH.dll'', ''b1''), (''BH.cfg'', ''c1'')])
      ''C:/D2a'' [entry ''BH.dll'' ''b2'' 3 False False, entry ''BH.cfg'' ''c2'' 1 False False] [] =
      (None, one_dir ''C:/D2a'' [(''BH.dll'', ''b1''), (''BH.cfg'', ''c1'')])"
    by (simp add: resetPatch_def g)
  have loc: "Location fixture_game_a = ''C:/D2a''" "MaphackVersion fixture_game_a = ''v1''"
    by (simp_all add: fixture_game_a_def)
  have idf: "ModMaphackIdentifier fixture_mods = ''BH.dll''"
    by (simp add: fixture_mods_def fixture_env_def)
  have mods: "getAvailableMods fixture_mods fixture_service =
     (Inr \<lparr>HD = [], Maphack = [''v1'', ''v2'']\<rparr>,
      fixture_service\<lparr>availableMods := Some \<lparr>HD = [], Maphack = [''v1'', ''v2'']\<rparr>\<rparr>)"
    by (simp add: getAvailableMods_def fixture_mods_def fixture_env_def fixture_service_def)
  show ?thesis
    by (simp add: resetMaphackPatch_def mods loc idf fixture_getManifest_v2 i r)
qed

text \<open>
  Claim C5, amended. For a mod category (maphack, or HD with its empty ignore list) with
  the available versions \<open>A\<close> and \<open>B\<close>, \<open>A\<close> desired and \<open>B\<close> detected as installed, a reset
  that returns without error removes every file of the manifest of \<open>B\<close> that exists on
  disk, except ignored files, and changes no other file, provided the diff of the
  manifest of \<open>B\<close> against the install directory gives a number of actions other than the
  number of the manifest's entries; when the two numbers are equal, the reset leaves the
  disk as it is.
\<close>

theorem reset_removes_unless_every_entry_mismatches:
  assumes "A \<noteq> B" and "vs = [A, B] \<or> vs = [B, A]"
    and "getFilesToPatch E d (Files man) (Location game) ign = Inr (acts, n)"
    and "(MaphackVersion game = A \<and>
          getManifest E (''maphack_'' @ B @ ''/manifest.json'') = Inr man \<and>
          isModInstalled E d (Location game) (ModMaphackIdentifier E) man = Inr True \<and>
          resetMaphackPatch_loop E game ign vs d = (None, d'))
       \<or> (HDVersion game = A \<and> ign = [] \<and>
          getManifest E (''hd_'' @ B @ ''/manifest.json'') = Inr man \<and>
          isModInstalled E d (Location game) (ModHDIdentifier E) man = Inr True \<and>
          resetHDPatch_loop E game vs d = (None, d'))"
  shows "if length acts \<noteq> length (Files man)
         then \<forall>dir' name. lookup d' dir' name =
                (if dir' = Location game \<and> name \<in> Name ` set (Files man) \<and> name \<notin> set ign
                 then None else lookup d dir' name)
         else d' = d"
proof -
  have "resetPatch E d (Location game) (Files man) ign = (None, d')"
    using assms(4)
  proof
    assume m: "MaphackVersion game = A \<and>
          getManifest E (''maphack_'' @ B @ ''/manifest.json'') = Inr man \<and>
          isModInstalled E d (Location game) (ModMaphackIdentifier E) man = Inr True \<and>
          resetMaphackPatch_loop E game ign vs d = (None, d')"
    then show ?thesis
      using resetMaphackPatch_loop_pair [of game A B vs E man d ign] assms(1,2) by simp
  next
    assume h: "HDVersion game = A \<and> ign = [] \<and>
          getManifest E (''hd_'' @ B @ ''/manifest.json'') = Inr man \<and>
          isModInstalled E d (Location game) (ModHDIdentifier E) man = Inr True \<and>
          resetHDPatch_loop E game vs d = (None, d')"
    then show ?thesis
      using resetHDPatch_loop_pair [of game A B vs E man d] assms(1,2) by simp
  qed
  from resetPatch_ok [OF this assms(3)] show ?thesis .
qed

theorem reset_removes_unless_every_entry_mismatches_witness:
  "''v1'' \<noteq> ''v2'' \<and>
   getFilesToPatch fixture_mods (one_dir ''C:/D2a'' [(''BH.dll'', ''b2''), (''BH.cfg'', ''c9'')])
      [entry ''BH.dll'' ''b2'' 3 False False, entry ''BH.cfg'' ''c2'' 1 False False]
      (Location fixture_game_a) [] =
      Inr ([\<lparr>Action = ActionDownload, File = entry ''BH.cfg'' ''c2'' 1 False False,
              D2Path = ''C:/D2a'', LocalCRC = ''c9''\<rparr>], 1) \<and>
   MaphackVersion fixture_game_a = ''v1'' \<and>
   isModInstalled fixture_mods (one_dir ''C:/D2a'' [(''BH.dll'', ''b2''), (''BH.cfg'', ''c9'')])
     (Location fixture_game_a) (ModMaphackIdentifier fixture_mods)
     \<lparr>Files = [entry ''BH.dll'' ''b2'' 3 False False, entry ''BH.cfg'' ''c2'' 1 False False]\<rparr>
     = Inr True \<and>
   resetMaphackPatch_loop fixture_mods fixture_game_a [] [''v1'', ''v2'']
     (one_dir ''C:/D2a'' [(''BH.dll'', ''b2''), (''BH.cfg'', ''c9'')]) =
     (None, one_dir ''C:/D2a'' []) \<and>
   (\<forall>dir' name. lookup (one_dir ''C:/D2a'' []) dir' name =
      (if dir' = ''C:/D2a'' \<and> name \<in> {''BH.dll'', ''BH.cfg''} then None
       else lookup (one_dir ''C:/D2a'' [(''BH.dll'', ''b2''), (''BH.cfg'', ''c9'')]) dir' name))"
proof -
  let ?d = "one_dir ''C:/D2a'' [(''BH.dll'', ''b2''), (''BH.cfg'', ''c9'')]"
  let ?man = "\<lparr>Files = [entry ''BH.dll'' ''b2'' 3 False False, entry ''BH.cfg'' ''c2'' 1 False False]\<rparr>"
  have loc: "Location fixture_game_a = ''C:/D2a''" and mv: "MaphackVersion fixture_game_a = ''v1''"
    by (simp_all add: fixture_game_a_def)
  have idf: "ModMaphackIdentifier fixture_mods = ''BH.dll''"
    by (simp add: fixture_mods_def fixture_env_def)
  have ne: "''v1'' \<noteq> ''v2''" by simp
  have vs: "[''v1'', ''v2''] = [''v1'', ''v2''] \<or> [''v1'', ''v2''] = [''v2'', ''v1'']" by simp
  have g: "getFilesToPatch fixture_mods ?d (Files ?man) (Location fixture_game_a) [] =
      Inr ([\<lparr>Action = ActionDownload, File = entry ''BH.cfg'' ''c2'' 1 False False,
              D2Path = ''C:/D2a'', LocalCRC = ''c9''\<rparr>], 1)"
    by (simp add: getFilesToPatch_def fixture_defs disk_defs)
  have i: "isModInstalled fixture_mods ?d (Location fixture_game_a)
             (ModMaphackIdentifier fixture_mods) ?man = Inr True"
    by (simp add: isModInstalled_def fixture_defs disk_defs)
  have rl: "resetPatch_loop fixture_mods ''C:/D2a'' [] (Files ?man) ?d = (None, one_dir ''C:/D2a'' [])"
    by (simp add: fixture_defs disk_defs)
  have r: "resetPatch fixture_mods ?d ''C:/D2a'' (Files ?man) [] = (None, one_dir ''C:/D2a'' [])"
    using g rl by (simp add: resetPatch_def loc)
  have m: "getManifest fixture_mods (''maphack_'' @ ''v2'' @ ''/manifest.json'') = Inr ?man"
    using fixture_getManifest_v2 by simp
  have l: "resetMaphackPatch_loop fixture_mods fixture_game_a [] [''v1'', ''v2''] ?d =
             (None, one_dir ''C:/D2a'' [])"
    using i r by (simp add: mv loc idf fixture_getManifest_v2)
  have cat: "(MaphackVersion fixture_game_a = ''v1'' \<and>
          getManifest fixture_mods (''maphack_'' @ ''v2'' @ ''/manifest.json'') = Inr ?man \<and>
          isModInstalled fixture_mods ?d (Location fixture_game_a)
            (ModMaphackIdentifier fixture_mods) ?man = Inr True \<and>
          resetMaphackPatch_loop fixture_mods fixture_game_a [] [''v1'', ''v2''] ?d =
            (None, one_dir ''C:/D2a'' []))
       \<or> (HDVersion fixture_game_a = ''v1'' \<and> [] = ([] :: string list) \<and>
          getManifest fixture_mods (''hd_'' @ ''v2'' @ ''/manifest.json'') = Inr ?man \<and>
          isModInstalled fixture_mods ?d (Location fixture_game_a)
            (ModHDIdentifier fixture_mods) ?man = Inr True \<and>
          resetHDPatch_loop fixture_mods fixture_game_a [''v1'', ''v2''] ?d =
            (None, one_dir ''C:/D2a'' []))"
    using mv m i l by blast
  from reset_removes_unless_every_entry_mismatches [OF ne vs g cat]
  have "\<forall>dir' name. lookup (one_dir ''C:/D2a'' []) dir' name =
      (if dir' = ''C:/D2a'' \<and> name \<in> {''BH.dll'', ''BH.cfg''} then None
       else lookup ?d dir' name)"
    by (simp add: loc entry_def)
  with ne g mv i l show ?thesis by (simp add: loc)
qed

text \<open>
  Claim C6. The claim has validation queue the files of a leftover version without an
  error when some of them are absent from disk. The code is evaluated on an installation
  that wants no maphack and holds \<^verbatim>\<open>BH.dll\<close> of \<^verbatim>\<open>v2\<close> but not \<^verbatim>\<open>BH.cfg\<close>:
  \<^verbatim>\<open>addPatchFilesToBeDeleted\<close> returns the \<^verbatim>\<open>ErrCRCFileNotFound\<close> of \<^verbatim>\<open>hashCRC32\<close>, nothing is
  added to the display model, and \<^verbatim>\<open>validateMaphackVersion\<close> returns that error.
\<close>

theorem validate_errors_on_absent_leftover_file:
  "MaphackVersion fixture_game_b \<noteq> ''v2'' \<and>
   isModInstalled fixture_mods (one_dir ''C:/D2b'' [(''BH.dll'', ''b2'')])
     (Location fixture_game_b) (ModMaphackIdentifier fixture_mods)
     \<lparr>Files = [entry ''BH.dll'' ''b2'' 3 False False, entry ''BH.cfg'' ''c2'' 1 False False]\<rparr>
     = Inr True \<and>
   lookup (one_dir ''C:/D2b'' [(''BH.dll'', ''b2'')]) ''C:/D2b'' ''BH.cfg'' = None \<and>
   validateMaphackVersion fixture_mods (one_dir ''C:/D2b'' [(''BH.dll'', ''b2'')])
     fixture_service fixture_game_b [''v2''] = (Inl ErrCRCFileNotFound, fixture_service)"
proof -
  let ?d = "one_dir ''C:/D2b'' [(''BH.dll'', ''b2'')]"
  let ?man = "\<lparr>Files = [entry ''BH.dll'' ''b2'' 3 False False, entry ''BH.cfg'' ''c2'' 1 False False]\<rparr>"
  have loc: "Location fixture_game_b = ''C:/D2b''" and mv: "MaphackVersion fixture_game_b = ''none''"
    and ov: "\<not> OverrideBHCfg fixture_game_b"
    by (simp_all add: fixture_game_b_def)
  have idf: "ModMaphackIdentifier fixture_mods = ''BH.dll''"
    by (simp add: fixture_mods_def fixture_env_def)
  have i: "isModInstalled fixture_mods ?d ''C:/D2b'' ''BH.dll'' ?man = Inr True"
    by (simp add: isModInstalled_def fixture_defs disk_defs)
  have a: "addPatchFilesToBeDeleted fixture_mods ?d fixture_service ''C:/D2b'' (Files ?man) =
             (Some ErrCRCFileNotFound, fixture_service)"
    by (simp add: addPatchFilesToBeDeleted_def fixture_defs disk_defs)
  have l: "lookup ?d ''C:/D2b'' ''BH.cfg'' = None"
    by (simp add: lookup_def one_dir_def)
  show ?thesis
    using i a l
    by (simp add: validateMaphackVersion_def loc mv ov idf fixture_getManifest_v2)
qed

section \<open>A patch that returns without error\<close>

lemma take_tmp: "take (length (n @ ''.tmp'') - 4) (n @ ''.tmp'') = n"
  by simp

lemma tmp_inj: "(n @ ''.tmp'' = m @ ''.tmp'') = (n = m)"
  by simp

lemma downloadFile_ok:
  assumes "downloadFile E d fileName remoteDir dir tmpName = (None, d')"
  shows "\<exists>c. GetFile E (remoteDir @ ''/'' @ fileName) = Inr c \<and> lookup d' dir tmpName = Some c"
  using assms
  by (auto simp: downloadFile_def Let_def lookup_write_file split: if_splits sum.splits)

lemma deleteFile_ok:
  assumes "deleteFile E d fileName path = (None, d')"
  shows "lookup d' path fileName = None"
  using assms
  by (auto simp: deleteFile_def os_Stat_def os_Remove_def os_IsNotExist_def lookup_remove_file
        split: if_splits option.splits)

text \<open>
  The first loop of \<^verbatim>\<open>doPatch\<close>, when it returns without error: every download is in its
  \<^verbatim>\<open>.tmp\<close> file, every file to delete is gone, and the collected names are those of the
  downloads, in order. No action may name a file that is the \<^verbatim>\<open>.tmp\<close> file of another.
\<close>

lemma doPatch_actions_ok:
  assumes "doPatch_actions E remoteDir path patchFiles tmpFiles d = (Inr tmpFiles', d')"
    and "distinct (map (\<lambda>a. Name (File a)) patchFiles)"
    and "\<forall>a \<in> set patchFiles. \<forall>b \<in> set patchFiles. Name (File a) \<noteq> Name (File b) @ ''.tmp''"
  shows "tmpFiles' = tmpFiles @ map (\<lambda>a. Name (File a) @ ''.tmp'')
                                  (filter (\<lambda>a. Action a = ActionDownload) patchFiles)
       \<and> (\<forall>a \<in> set patchFiles. Action a = ActionDownload \<longrightarrow>
             (\<exists>c. GetFile E (remoteDir @ ''/'' @ Name (File a)) = Inr c \<and>
                  lookup d' path (Name (File a) @ ''.tmp'') = Some c))
       \<and> (\<forall>a \<in> set patchFiles. Action a = ActionDelete \<longrightarrow> lookup d' path (Name (File a)) = None)"
  using assms
proof (induction patchFiles arbitrary: tmpFiles d)
  case Nil
  then show ?case by simp
next
  case (Cons x patchFiles)
  have dist: "distinct (map (\<lambda>a. Name (File a)) patchFiles)"
    and xnew: "\<forall>b \<in> set patchFiles. Name (File x) \<noteq> Name (File b)"
    using Cons.prems(2) by auto
  have coll: "\<forall>a \<in> set patchFiles. \<forall>b \<in> set patchFiles. Name (File a) \<noteq> Name (File b) @ ''.tmp''"
    and xcoll: "\<forall>b \<in> set patchFiles. Name (File x) \<noteq> Name (File b) @ ''.tmp''"
    and xcoll2: "\<forall>b \<in> set patchFiles. Name (File b) \<noteq> Name (File x) @ ''.tmp''"
    using Cons.prems(3) by auto
  show ?case
  proof (cases "Action x")
    case ActionDownload
    obtain e d1 where dl:
      "downloadFile E d (Name (File x)) remoteDir path (Name (File x) @ ''.tmp'') = (e, d1)"
      by (cases "downloadFile E d (Name (File x)) remoteDir path (Name (File x) @ ''.tmp'')")
    with Cons.prems(1) ActionDownload have e: "e = None"
      and rest: "doPatch_actions E remoteDir path patchFiles
                   (tmpFiles @ [Name (File x) @ ''.tmp'']) d1 = (Inr tmpFiles', d')"
      by (auto simp: Let_def split: option.splits)
    from downloadFile_ok [OF dl [unfolded e]] obtain c where
      c: "GetFile E (remoteDir @ ''/'' @ Name (File x)) = Inr c"
         "lookup d1 path (Name (File x) @ ''.tmp'') = Some c"
      by blast
    have keep: "lookup d' path (Name (File x) @ ''.tmp'') = lookup d1 path (Name (File x) @ ''.tmp'')"
      by (rule doPatch_actions_frame [OF rest]) (use xnew xcoll2 in auto)
    from Cons.IH [OF rest dist coll] ActionDownload c keep show ?thesis by auto
  next
    case ActionDelete
    obtain e d1 where dl: "deleteFile E d (Name (File x)) path = (e, d1)"
      by (cases "deleteFile E d (Name (File x)) path")
    with Cons.prems(1) ActionDelete have e: "e = None"
      and rest: "doPatch_actions E remoteDir path patchFiles tmpFiles d1 = (Inr tmpFiles', d')"
      by (auto simp: Let_def split: option.splits)
    note gone = deleteFile_ok [OF dl [unfolded e]]
    have keep: "lookup d' path (Name (File x)) = lookup d1 path (Name (File x))"
      by (rule doPatch_actions_frame [OF rest]) (use xnew xcoll in auto)
    from Cons.IH [OF rest dist coll] ActionDelete gone keep show ?thesis by auto
  qed
qed

lemma os_Rename_ok:
  assumes "os_Rename E d dir old new = (None, d')" and "new \<noteq> old"
  shows "lookup d' dir' n =
     (if dir' = dir \<and> n = new then lookup d dir old
      else if dir' = dir \<and> n = old then None
      else lookup d dir' n)"
  using assms
  by (auto simp: os_Rename_def lookup_write_file lookup_remove_file split: if_splits option.splits)

text \<open>
  The second loop of \<^verbatim>\<open>doPatch\<close>, when it returns without error: every \<^verbatim>\<open>.tmp\<close> file
  has become the file of its final name.
\<close>

lemma doPatch_renames_ok:
  assumes "doPatch_renames E path (map (\<lambda>n. n @ ''.tmp'') names) d = (None, d')"
    and "distinct names"
    and "\<forall>n \<in> set names. \<forall>m \<in> set names. n \<noteq> m @ ''.tmp''"
  shows "lookup d' path n =
     (if n \<in> set names then lookup d path (n @ ''.tmp'')
      else if n \<in> (\<lambda>m. m @ ''.tmp'') ` set names then None
      else lookup d path n)"
  using assms
proof (induction names arbitrary: d)
  case Nil
  then show ?case by simp
next
  case (Cons x names)
  obtain e d1 where rn: "os_Rename E d path (x @ ''.tmp'') x = (e, d1)"
    by (cases "os_Rename E d path (x @ ''.tmp'') x")
  with Cons.prems(1) have e: "e = None"
    and rest: "doPatch_renames E path (map (\<lambda>n. n @ ''.tmp'') names) d1 = (None, d')"
    by (auto split: option.splits)
  have ne: "x \<noteq> x @ ''.tmp''" by simp
  note r1 = os_Rename_ok [OF rn [unfolded e] ne, of path]
  have dist: "distinct names" and xn: "x \<notin> set names" using Cons.prems(2) by auto
  have coll: "\<forall>n \<in> set names. \<forall>m \<in> set names. n \<noteq> m @ ''.tmp''"
    and xc: "\<forall>m \<in> set names. x \<noteq> m @ ''.tmp''"
    and xc2: "\<forall>m \<in> set names. m \<noteq> x @ ''.tmp''"
    using Cons.prems(3) by auto
  note IH = Cons.IH [OF rest dist coll]
  show ?case
  proof (cases "n = x")
    case True
    with IH xn xc r1 show ?thesis by auto
  next
    case nx: False
    show ?thesis
    proof (cases "n = x @ ''.tmp''")
      case True
      with IH xc2 r1 nx show ?thesis by auto
    next
      case False
      with IH r1 nx xc xc2 show ?thesis by auto
    qed
  qed
qed

section \<open>Properties of validation\<close>

lemma addFilesToModel_model:
  "patchFileModel (addFilesToModel s acts) = patchFileModel s @ map item_of acts"
  by (induction acts arbitrary: s) (simp_all add: AddFile_def item_of_def)

lemma process_targets_append:
  "process_targets s (ts1 @ ts2) =
     (case process_targets s ts1 of
        (Some err, s') \<Rightarrow> (Some err, s')
      | (None, s') \<Rightarrow> process_targets s' ts2)"
  by (induction s ts1 rule: process_targets.induct) simp_all

lemma process_targets_error:
  assumes "process_targets s ts = (Some err, s')"
  shows "\<exists>done rest. ts = map Inr done @ Inl err # rest
           \<and> patchFileModel s' = patchFileModel s @ map item_of (concat done)"
  using assms
proof (induction s ts rule: process_targets.induct)
  case (1 s)
  then show ?case by simp
next
  case (2 s e targets)
  then have "Inl e # targets = map Inr [] @ Inl err # targets
           \<and> patchFileModel s' = patchFileModel s @ map item_of (concat [])"
    by simp
  then show ?case by blast
next
  case (3 s actions targets)
  from 3 obtain dn rest where ts: "targets = map Inr dn @ Inl err # rest"
    and m: "patchFileModel s' = patchFileModel (addFilesToModel s actions) @ map item_of (concat dn)"
    by auto
  have "Inr actions # targets = map Inr (actions # dn) @ Inl err # rest
      \<and> patchFileModel s' = patchFileModel s @ map item_of (concat (actions # dn))"
    using ts m by (simp add: addFilesToModel_model)
  then show ?case by blast
qed

lemma addPatchFilesToBeDeleted_targets:
  "addPatchFilesToBeDeleted E d s p fs =
     (case addPatchFilesToBeDeleted_loop E d p fs [] of
        Inl err \<Rightarrow> (Some err, s)
      | Inr actions \<Rightarrow> (None, addFilesToModel s actions))"
  by (simp add: addPatchFilesToBeDeleted_def)

lemma validateMaphackVersion_loop_targets:
  assumes "validateMaphackVersion_loop E d game versions isValid s = (r, s')"
  shows "process_targets s (map (target_maphack E d game) versions) =
           ((case r of Inl err \<Rightarrow> Some err | Inr b \<Rightarrow> None), s')"
  using assms
proof (induction versions arbitrary: isValid s)
  case Nil
  then show ?case by auto
next
  case (Cons v versions)
  show ?case
  proof (cases "getManifest E (''maphack_'' @ v @ ''/manifest.json'')")
    case (Inl err)
    with Cons.prems have "r = Inl err" "s' = s" by simp_all
    moreover have "target_maphack E d game v = Inl err" using Inl by (simp add: target_maphack_def)
    ultimately show ?thesis by simp
  next
    case (Inr manifest)
    show ?thesis
    proof (cases "MaphackVersion game = v")
      case True
      show ?thesis
      proof (cases "getFilesToPatch E d (Files manifest) (Location game)
                      (if OverrideBHCfg game then [''BH.cfg''] else [])")
        case (Inl err)
        with Cons.prems Inr True have "r = Inl err" "s' = s" by (simp_all add: Let_def)
        moreover have "target_maphack E d game v = Inl err"
          using Inl Inr True by (simp add: target_maphack_def)
        ultimately show ?thesis by simp
      next
        case fr: (Inr q)
        obtain files n where q: "q = (files, n)" by (cases q)
        have tg: "target_maphack E d game v = Inr files"
          using Inr True fr q by (simp add: target_maphack_def)
        show ?thesis
        proof (cases "files = []")
          case True
          with Cons.prems Inr \<open>MaphackVersion game = v\<close> fr q
          have "validateMaphackVersion_loop E d game versions isValid s = (r, s')"
            by (simp add: Let_def)
          from Cons.IH [OF this] tg True show ?thesis by simp
        next
          case False
          with Cons.prems Inr \<open>MaphackVersion game = v\<close> fr q
          have "validateMaphackVersion_loop E d game versions False (addFilesToModel s files) = (r, s')"
            by (simp add: Let_def)
          from Cons.IH [OF this] tg show ?thesis by simp
        qed
      qed
    next
      case False
      show ?thesis
      proof (cases "isModInstalled E d (Location game) (ModMaphackIdentifier E) manifest")
        case (Inl err)
        with Cons.prems Inr False have "r = Inl err" "s' = s" by (simp_all add: Let_def)
        moreover have "target_maphack E d game v = Inl err"
          using Inl Inr False by (simp add: target_maphack_def)
        ultimately show ?thesis by simp
      next
        case ir: (Inr installed)
        show ?thesis
        proof (cases installed)
          case False
          with Cons.prems Inr \<open>MaphackVersion game \<noteq> v\<close> ir
          have "validateMaphackVersion_loop E d game versions isValid s = (r, s')"
            by (simp add: Let_def)
          moreover have "target_maphack E d game v = Inr []"
            using Inr \<open>MaphackVersion game \<noteq> v\<close> ir False by (simp add: target_maphack_def)
          ultimately show ?thesis using Cons.IH by simp
        next
          case True
          then have tg: "target_maphack E d game v =
                       addPatchFilesToBeDeleted_loop E d (Location game) (Files manifest) []"
            using Inr \<open>MaphackVersion game \<noteq> v\<close> ir by (simp add: target_maphack_def)
          show ?thesis
          proof (cases "addPatchFilesToBeDeleted_loop E d (Location game) (Files manifest) []")
            case (Inl err)
            with Cons.prems Inr \<open>MaphackVersion game \<noteq> v\<close> ir True
            have "r = Inl err" "s' = s"
              by (simp_all add: Let_def addPatchFilesToBeDeleted_targets)
            with tg Inl show ?thesis by simp
          next
            case ar: (Inr actions)
            with Cons.prems Inr \<open>MaphackVersion game \<noteq> v\<close> ir True
            have "validateMaphackVersion_loop E d game versions False (addFilesToModel s actions)
                    = (r, s')"
              by (simp add: Let_def addPatchFilesToBeDeleted_targets)
            from Cons.IH [OF this] tg ar show ?thesis by simp
          qed
        qed
      qed
    qed
  qed
qed

lemma validateHDVersion_loop_targets:
  assumes "validateHDVersion_loop E d game versions isValid s = (r, s')"
  shows "process_targets s (map (target_hd E d game) versions) =
           ((case r of Inl err \<Rightarrow> Some err | Inr b \<Rightarrow> None), s')"
  using assms
proof (induction versions arbitrary: isValid s)
  case Nil
  then show ?case by auto
next
  case (Cons v versions)
  show ?case
  proof (cases "getManifest E (''hd_'' @ v @ ''/manifest.json'')")
    case (Inl err)
    with Cons.prems have "r = Inl err" "s' = s" by simp_all
    moreover have "target_hd E d game v = Inl err" using Inl by (simp add: target_hd_def)
    ultimately show ?thesis by simp
  next
    case (Inr manifest)
    show ?thesis
    proof (cases "HDVersion game = v")
      case True
      show ?thesis
      proof (cases "getFilesToPatch E d (Files manifest) (Location game) []")
        case (Inl err)
        with Cons.prems Inr True have "r = Inl err" "s' = s" by (simp_all add: Let_def)
        moreover have "target_hd E d game v = Inl err"
          using Inl Inr True by (simp add: target_hd_def)
        ultimately show ?thesis by simp
      next
        case fr: (Inr q)
        obtain files n where q: "q = (files, n)" by (cases q)
        have tg: "target_hd E d game v = Inr files"
          using Inr True fr q by (simp add: target_hd_def)
        show ?thesis
        proof (cases "files = []")
          case True
          with Cons.prems Inr \<open>HDVersion game = v\<close> fr q
          have "validateHDVersion_loop E d game versions isValid s = (r, s')"
            by (simp add: Let_def)
          from Cons.IH [OF this] tg True show ?thesis by simp
        next
          case False
          with Cons.prems Inr \<open>HDVersion game = v\<close> fr q
          have "validateHDVersion_loop E d game versions False (addFilesToModel s files) = (r, s')"
            by (simp add: Let_def)
          from Cons.IH [OF this] tg show ?thesis by simp
        qed
      qed
    next
      case False
      show ?thesis
      proof (cases "isModInstalled E d (Location game) (ModHDIdentifier E) manifest")
        case (Inl err)
        with Cons.prems Inr False have "r = Inl err" "s' = s" by (simp_all add: Let_def)
        moreover have "target_hd E d game v = Inl err"
          using Inl Inr False by (simp add: target_hd_def)
        ultimately show ?thesis by simp
      next
        case ir: (Inr installed)
        show ?thesis
        proof (cases installed)
          case False
          with Cons.prems Inr \<open>HDVersion game \<noteq> v\<close> ir
          have "validateHDVersion_loop E d game versions isValid s = (r, s')"
            by (simp add: Let_def)
          moreover have "target_hd E d game v = Inr []"
            using Inr \<open>HDVersion game \<noteq> v\<close> ir False by (simp add: target_hd_def)
          ultimately show ?thesis using Cons.IH by simp
        next
          case True
          then have tg: "target_hd E d game v =
                       addPatchFilesToBeDeleted_loop E d (Location game) (Files manifest) []"
            using Inr \<open>HDVersion game \<noteq> v\<close> ir by (simp add: target_hd_def)
          show ?thesis
          proof (cases "addPatchFilesToBeDeleted_loop E d (Location game) (Files manifest) []")
            case (Inl err)
            with Cons.prems Inr \<open>HDVersion game \<noteq> v\<close> ir True
            have "r = Inl err" "s' = s"
              by (simp_all add: Let_def addPatchFilesToBeDeleted_targets)
            with tg Inl show ?thesis by simp
          next
            case ar: (Inr actions)
            with Cons.prems Inr \<open>HDVersion game \<noteq> v\<close> ir True
            have "validateHDVersion_loop E d game versions False (addFilesToModel s actions)
                    = (r, s')"
              by (simp add: Let_def addPatchFilesToBeDeleted_targets)
            from Cons.IH [OF this] tg ar show ?thesis by simp
          qed
        qed
      qed
    qed
  qed
qed

lemma ValidateGameVersions_game_targets:
  assumes "ValidateGameVersions_game E d m1 m2 mods game upToDate s = (r, s')"
  shows "process_targets s (game_targets E d m1 m2 mods game) =
           ((case r of Inl err \<Rightarrow> Some err | Inr b \<Rightarrow> None), s')"
proof (cases "target_113c E d m1 game")
  case (Inl err)
  then have "r = Inl err" "s' = s"
    using assms
    by (auto simp: ValidateGameVersions_game_def target_113c_def
        split: sum.splits if_splits prod.splits)
  with Inl show ?thesis by (simp add: game_targets_def)
next
  case b: (Inr baseFiles)
  then obtain valid where v: "validate113cVersion E d (Location game) = Inr valid"
    by (auto simp: target_113c_def split: sum.splits)
  define X where "X = (if \<not> valid then
                   (case getFilesToPatch E d (Files m1) (Location game) [] of
                      Inl err \<Rightarrow> Inl err
                    | Inr (version113cFiles, _) \<Rightarrow>
                        Inr (False, addFilesToModel s version113cFiles))
                 else Inr (upToDate, s))"
  from b v obtain u1 where x: "X = Inr (u1, addFilesToModel s baseFiles)"
    by (auto simp: target_113c_def X_def split: sum.splits if_splits prod.splits)
  let ?s1 = "addFilesToModel s baseFiles"
  show ?thesis
  proof (cases "getFilesToPatch E d (Files m2) (Location game) []")
    case (Inl err)
    with assms v x have "r = Inl err" "s' = ?s1"
      by (simp_all add: ValidateGameVersions_game_def X_def [symmetric])
    moreover have "target_slash E d m2 game = Inl err"
      using Inl by (simp add: target_slash_def)
    ultimately show ?thesis using b by (simp add: game_targets_def)
  next
    case sl: (Inr q)
    obtain slashFiles n where q: "q = (slashFiles, n)" by (cases q)
    have ts: "target_slash E d m2 game = Inr slashFiles"
      using sl q by (simp add: target_slash_def)
    let ?s2 = "addFilesToModel ?s1 slashFiles"
    have s2: "(if slashFiles \<noteq> [] then addFilesToModel ?s1 slashFiles else ?s1) = ?s2"
      by (cases slashFiles) simp_all
    obtain rm s3 where m: "validateMaphackVersion E d ?s2 game (Maphack mods) = (rm, s3)"
      by (cases "validateMaphackVersion E d ?s2 game (Maphack mods)")
    have pm: "process_targets ?s2 (map (target_maphack E d game) (Maphack mods)) =
                ((case rm of Inl err \<Rightarrow> Some err | Inr b \<Rightarrow> None), s3)"
      using m unfolding validateMaphackVersion_def
      by (rule validateMaphackVersion_loop_targets)
    have two: "process_targets s (game_targets E d m1 m2 mods game) =
         (case process_targets ?s2 (map (target_maphack E d game) (Maphack mods)) of
            (Some err, s') \<Rightarrow> (Some err, s')
          | (None, s') \<Rightarrow> process_targets s' (map (target_hd E d game) (HD mods)))"
      unfolding game_targets_def
      by (simp add: b ts process_targets_append del: append.simps)
    show ?thesis
    proof (cases rm)
      case (Inl err)
      with assms v x sl q m have "r = Inl err" "s' = s3"
        by (simp_all add: ValidateGameVersions_game_def X_def [symmetric] s2 Let_def)
      with two pm Inl show ?thesis by simp
    next
      case mr: (Inr validMaphack)
      obtain rh s4 where h: "validateHDVersion E d s3 game (HD mods) = (rh, s4)"
        by (cases "validateHDVersion E d s3 game (HD mods)")
      have ph: "process_targets s3 (map (target_hd E d game) (HD mods)) =
                ((case rh of Inl err \<Rightarrow> Some err | Inr b \<Rightarrow> None), s4)"
        using h unfolding validateHDVersion_def
        by (rule validateHDVersion_loop_targets)
      have "(case r of Inl err \<Rightarrow> Some err | Inr b \<Rightarrow> None) =
            (case rh of Inl err \<Rightarrow> Some err | Inr b \<Rightarrow> None) \<and> s' = s4"
      proof (cases rh)
        case (Inl err)
        with assms v x sl q m mr h show ?thesis
          by (simp add: ValidateGameVersions_game_def X_def [symmetric] s2 Let_def)
      next
        case (Inr validHD)
        with assms v x sl q m mr h show ?thesis
          by (auto simp add: ValidateGameVersions_game_def X_def [symmetric] s2 Let_def)
      qed
      with two pm mr ph show ?thesis by simp
    qed
  qed
qed

lemma ValidateGameVersions_loop_targets:
  assumes "ValidateGameVersions_loop E d m1 m2 mods games upToDate s = (r, s')"
  shows "process_targets s (validation_targets E d m1 m2 mods games) =
           ((case r of Inl err \<Rightarrow> Some err | Inr b \<Rightarrow> None), s')"
  using assms
proof (induction games arbitrary: upToDate s)
  case Nil
  then show ?case by (auto simp: validation_targets_def)
next
  case (Cons g games)
  obtain rg sg where g: "ValidateGameVersions_game E d m1 m2 mods g upToDate s = (rg, sg)"
    by (cases "ValidateGameVersions_game E d m1 m2 mods g upToDate s")
  note pg = ValidateGameVersions_game_targets [OF g]
  have split: "process_targets s (validation_targets E d m1 m2 mods (g # games)) =
         (case process_targets s (game_targets E d m1 m2 mods g) of
            (Some err, s') \<Rightarrow> (Some err, s')
          | (None, s') \<Rightarrow> process_targets s' (validation_targets E d m1 m2 mods games))"
    unfolding validation_targets_def by (simp add: process_targets_append)
  show ?case
  proof (cases rg)
    case (Inl err)
    with Cons.prems g have "r = Inl err" "s' = sg" by simp_all
    with split pg Inl show ?thesis by simp
  next
    case (Inr u)
    with Cons.prems g have "ValidateGameVersions_loop E d m1 m2 mods games u sg = (r, s')"
      by simp
    from Cons.IH [OF this] split pg Inr show ?thesis by simp
  qed
qed

lemma getAvailableMods_model:
  "getAvailableMods E s = (r, s') \<Longrightarrow> patchFileModel s' = patchFileModel s"
  by (auto simp: getAvailableMods_def split: option.splits sum.splits)

lemma fx_base: "getManifest fixture_stat_refused ''1.13c/manifest.json'' =
    Inr \<lparr>Files = [entry ''Game.exe'' ''g1'' 9 False False]\<rparr>"
  by (simp add: getManifest_def fixture_stat_refused_def fixture_mods_def fixture_env_def
        fixture_manifest_def)

lemma fx_current: "getManifest fixture_stat_refused ''current/manifest.json'' =
    Inr \<lparr>Files = [entry ''Patch_D2.mpq'' ''p1'' 8 False False]\<rparr>"
  by (simp add: getManifest_def fixture_stat_refused_def fixture_mods_def fixture_env_def
        fixture_manifest_def)

lemma fx_v1: "getManifest fixture_stat_refused ''maphack_v1/manifest.json'' =
     Inr \<lparr>Files = [entry ''BH.dll'' ''b1'' 3 False False, entry ''BH.cfg'' ''c1'' 1 False False]\<rparr>"
  by (simp add: getManifest_def fixture_stat_refused_def fixture_mods_def fixture_env_def
        fixture_manifest_def)

lemma fx_v2: "getManifest fixture_stat_refused ''maphack_v2/manifest.json'' =
     Inr \<lparr>Files = [entry ''BH.dll'' ''b2'' 3 False False, entry ''BH.cfg'' ''c2'' 1 False False]\<rparr>"
  by (simp add: getManifest_def fixture_stat_refused_def fixture_mods_def fixture_env_def
        fixture_manifest_def)

lemma fx_mods: "getAvailableMods fixture_stat_refused fixture_service =
    (Inr \<lparr>HD = [], Maphack = [''v1'', ''v2'']\<rparr>, fixture_cached [])"
  by (simp add: getAvailableMods_def fixture_stat_refused_def fixture_mods_def fixture_env_def
        fixture_service_def fixture_cached_def)

lemma fx_conf: "configRead fixture_stat_refused =
    Inr \<lparr>Games = fixture_games, LaunchDelay = 1000\<rparr>"
  by (simp add: fixture_stat_refused_def fixture_mods_def fixture_env_def)

lemma entry_sel:
  "Name (entry name crc len ign dep) = name" "CRC (entry name crc len ign dep) = crc"
  "ContentLength (entry name crc len ign dep) = len" "IgnoreCRC (entry name crc len ign dep) = ign"
  "Deprecated (entry name crc len ign dep) = dep"
  by (simp_all add: entry_def)

lemmas fx_env = fixture_stat_refused_def fixture_mods_def fixture_env_def

lemma fx_game_a:
  "ValidateGameVersions_game fixture_stat_refused fixture_two_dirs
     \<lparr>Files = [entry ''Game.exe'' ''g1'' 9 False False]\<rparr>
     \<lparr>Files = [entry ''Patch_D2.mpq'' ''p1'' 8 False False]\<rparr>
     \<lparr>HD = [], Maphack = [''v1'', ''v2'']\<rparr> fixture_game_a True (fixture_cached []) =
   (Inr False, fixture_cached fixture_model_a)"
proof -
  have ga: "Location fixture_game_a = ''C:/D2a''" "MaphackVersion fixture_game_a = ''v1''"
    "\<not> OverrideBHCfg fixture_game_a"
    by (simp_all add: fixture_game_a_def)
  have v: "validate113cVersion fixture_stat_refused fixture_two_dirs ''C:/D2a'' = Inr True"
    by (simp add: fx_env)
  have idf: "ModMaphackIdentifier fixture_stat_refused = ''BH.dll''" by (simp add: fx_env)
  have sl: "getFilesToPatch fixture_stat_refused fixture_two_dirs
      [entry ''Patch_D2.mpq'' ''p1'' 8 False False] ''C:/D2a'' [] =
      Inr ([\<lparr>Action = ActionDownload, File = entry ''Patch_D2.mpq'' ''p1'' 8 False False,
              D2Path = ''C:/D2a'', LocalCRC = []\<rparr>], 8)"
    by (simp add: getFilesToPatch_def fx_env fixture_two_dirs_def one_dir_def entry_def disk_defs)
  have mh: "getFilesToPatch fixture_stat_refused fixture_two_dirs
      [entry ''BH.dll'' ''b1'' 3 False False, entry ''BH.cfg'' ''c1'' 1 False False] ''C:/D2a'' [] =
      Inr ([\<lparr>Action = ActionDownload, File = entry ''BH.dll'' ''b1'' 3 False False,
              D2Path = ''C:/D2a'', LocalCRC = []\<rparr>,
            \<lparr>Action = ActionDownload, File = entry ''BH.cfg'' ''c1'' 1 False False,
              D2Path = ''C:/D2a'', LocalCRC = []\<rparr>], 4)"
    by (simp add: getFilesToPatch_def fx_env fixture_two_dirs_def one_dir_def entry_def disk_defs)
  have inst: "isModInstalled fixture_stat_refused fixture_two_dirs ''C:/D2a'' ''BH.dll''
      \<lparr>Files = [entry ''BH.dll'' ''b2'' 3 False False, entry ''BH.cfg'' ''c2'' 1 False False]\<rparr> =
      Inr False"
    by (simp add: isModInstalled_def fx_env fixture_two_dirs_def one_dir_def entry_def disk_defs)
  show ?thesis
    by (simp add: ValidateGameVersions_game_def v ga sl validateMaphackVersion_def
          validateHDVersion_def fx_v1 fx_v2 mh inst idf fixture_cached_def fixture_model_a_def
          AddFile_def entry_sel)
qed

lemma fx_game_b:
  "ValidateGameVersions_game fixture_stat_refused fixture_two_dirs
     \<lparr>Files = [entry ''Game.exe'' ''g1'' 9 False False]\<rparr>
     \<lparr>Files = [entry ''Patch_D2.mpq'' ''p1'' 8 False False]\<rparr>
     \<lparr>HD = [], Maphack = [''v1'', ''v2'']\<rparr> fixture_game_b False
     (fixture_cached fixture_model_a) =
   (Inl ErrIO, fixture_cached (fixture_model_a @ [fixture_item_b]))"
proof -
  have gb: "Location fixture_game_b = ''C:/D2b''" "MaphackVersion fixture_game_b = ''none''"
    "\<not> OverrideBHCfg fixture_game_b"
    by (simp_all add: fixture_game_b_def)
  have v: "validate113cVersion fixture_stat_refused fixture_two_dirs ''C:/D2b'' = Inr True"
    by (simp add: fx_env)
  have idf: "ModMaphackIdentifier fixture_stat_refused = ''BH.dll''" by (simp add: fx_env)
  have sl: "getFilesToPatch fixture_stat_refused fixture_two_dirs
      [entry ''Patch_D2.mpq'' ''p1'' 8 False False] ''C:/D2b'' [] =
      Inr ([\<lparr>Action = ActionDownload, File = entry ''Patch_D2.mpq'' ''p1'' 8 False False,
              D2Path = ''C:/D2b'', LocalCRC = []\<rparr>], 8)"
    by (simp add: getFilesToPatch_def fx_env fixture_two_dirs_def one_dir_def entry_def disk_defs)
  have inst: "isModInstalled fixture_stat_refused fixture_two_dirs ''C:/D2b'' ''BH.dll''
      \<lparr>Files = [entry ''BH.dll'' ''b1'' 3 False False, entry ''BH.cfg'' ''c1'' 1 False False]\<rparr> =
      Inl ErrIO"
    by (simp add: isModInstalled_def fx_env fixture_two_dirs_def one_dir_def entry_def disk_defs)
  show ?thesis
    by (simp add: ValidateGameVersions_game_def v gb sl validateMaphackVersion_def
          fx_v1 inst idf fixture_cached_def fixture_item_b_def AddFile_def entry_sel)
qed

lemma fx_run:
  "ValidateGameVersions fixture_stat_refused fixture_two_dirs fixture_service =
     (Inl ErrIO, fixture_cached (fixture_model_a @ [fixture_item_b]))"
  by (simp add: ValidateGameVersions_def fx_conf fx_base fx_current fx_mods fixture_games_def
        fx_game_a fx_game_b)

text \<open>
  The targets of the two installations of the fixture, when the status of the maphack
  marker of the second installation cannot be read: the second installation's current
  patch target has given its action when its first maphack target fails.
\<close>

lemma fixture_validation_targets:
  "validation_targets fixture_stat_refused fixture_two_dirs
     \<lparr>Files = [entry ''Game.exe'' ''g1'' 9 False False]\<rparr>
     \<lparr>Files = [entry ''Patch_D2.mpq'' ''p1'' 8 False False]\<rparr>
     \<lparr>HD = [], Maphack = [''v1'', ''v2'']\<rparr> fixture_games =
   [Inr [],
    Inr [\<lparr>Action = ActionDownload, File = entry ''Patch_D2.mpq'' ''p1'' 8 False False,
          D2Path = ''C:/D2a'', LocalCRC = []\<rparr>],
    Inr [\<lparr>Action = ActionDownload, File = entry ''BH.dll'' ''b1'' 3 False False,
          D2Path = ''C:/D2a'', LocalCRC = []\<rparr>,
         \<lparr>Action = ActionDownload, File = entry ''BH.cfg'' ''c1'' 1 False False,
          D2Path = ''C:/D2a'', LocalCRC = []\<rparr>],
    Inr [],
    Inr [],
    Inr [\<lparr>Action = ActionDownload, File = entry ''Patch_D2.mpq'' ''p1'' 8 False False,
          D2Path = ''C:/D2b'', LocalCRC = []\<rparr>],
    Inl ErrIO,
    Inl ErrIO]"
proof -
  have ga: "Location fixture_game_a = ''C:/D2a''" "MaphackVersion fixture_game_a = ''v1''"
    "\<not> OverrideBHCfg fixture_game_a"
    by (simp_all add: fixture_game_a_def)
  have gb: "Location fixture_game_b = ''C:/D2b''" "MaphackVersion fixture_game_b = ''none''"
    "\<not> OverrideBHCfg fixture_game_b"
    by (simp_all add: fixture_game_b_def)
  have v: "\<And>p. validate113cVersion fixture_stat_refused fixture_two_dirs p = Inr True"
    by (simp add: fx_env)
  have idf: "ModMaphackIdentifier fixture_stat_refused = ''BH.dll''" by (simp add: fx_env)
  have sl: "\<And>p. p = ''C:/D2a'' \<or> p = ''C:/D2b'' \<Longrightarrow>
      getFilesToPatch fixture_stat_refused fixture_two_dirs
      [entry ''Patch_D2.mpq'' ''p1'' 8 False False] p [] =
      Inr ([\<lparr>Action = ActionDownload, File = entry ''Patch_D2.mpq'' ''p1'' 8 False False,
              D2Path = p, LocalCRC = []\<rparr>], 8)"
    by (auto simp add: getFilesToPatch_def fx_env fixture_two_dirs_def one_dir_def entry_def disk_defs)
  have mh: "getFilesToPatch fixture_stat_refused fixture_two_dirs
      [entry ''BH.dll'' ''b1'' 3 False False, entry ''BH.cfg'' ''c1'' 1 False False] ''C:/D2a'' [] =
      Inr ([\<lparr>Action = ActionDownload, File = entry ''BH.dll'' ''b1'' 3 False False,
              D2Path = ''C:/D2a'', LocalCRC = []\<rparr>,
            \<lparr>Action = ActionDownload, File = entry ''BH.cfg'' ''c1'' 1 False False,
              D2Path = ''C:/D2a'', LocalCRC = []\<rparr>], 4)"
    by (simp add: getFilesToPatch_def fx_env fixture_two_dirs_def one_dir_def entry_def disk_defs)
  have ia: "isModInstalled fixture_stat_refused fixture_two_dirs ''C:/D2a'' ''BH.dll''
      \<lparr>Files = [entry ''BH.dll'' ''b2'' 3 False False, entry ''BH.cfg'' ''c2'' 1 False False]\<rparr> =
      Inr False"
    by (simp add: isModInstalled_def fx_env fixture_two_dirs_def one_dir_def entry_def disk_defs)
  have ib: "\<And>c1 c2. isModInstalled fixture_stat_refused fixture_two_dirs ''C:/D2b'' ''BH.dll''
      \<lparr>Files = [entry ''BH.dll'' c1 3 False False, entry ''BH.cfg'' c2 1 False False]\<rparr> =
      Inl ErrIO"
    by (simp add: isModInstalled_def fx_env fixture_two_dirs_def one_dir_def entry_def disk_defs)
  show ?thesis
    by (simp add: validation_targets_def game_targets_def fixture_games_def target_113c_def
          target_slash_def target_maphack_def v ga gb sl mh ia ib idf fx_v1 fx_v2)
qed

text \<open>
  Claim C10. When \<^verbatim>\<open>ValidateGameVersions\<close> returns an error while it processes an
  installation, the display model that it leaves is the model it started with, followed
  by the actions of every target processed before the failing one, in the order of
  processing: all the targets of the installations before the failing one, and the
  targets of the failing installation that precede the failing target. Nothing that was
  added is rolled back, and nothing else is added.
\<close>

theorem validation_error_keeps_model:
  assumes "ValidateGameVersions E d s = (Inl err, s')"
    and "configRead E = Inr conf"
    and "getManifest E ''1.13c/manifest.json'' = Inr version113cManifest"
    and "getManifest E ''current/manifest.json'' = Inr slashManifest"
    and "getAvailableMods E s = (Inr mods, s0)"
  shows "\<exists>processed rest.
           validation_targets E d version113cManifest slashManifest mods (Games conf) =
             map Inr processed @ Inl err # rest
         \<and> patchFileModel s' = patchFileModel s @ map item_of (concat processed)"
proof -
  have run: "ValidateGameVersions_loop E d version113cManifest slashManifest mods (Games conf)
               True s0 = (Inl err, s')"
    using assms by (cases "Games conf") (simp_all add: ValidateGameVersions_def)
  from ValidateGameVersions_loop_targets [OF run]
  have "process_targets s0 (validation_targets E d version113cManifest slashManifest mods
          (Games conf)) = (Some err, s')"
    by simp
  from process_targets_error [OF this] getAvailableMods_model [OF assms(5)]
  show ?thesis by simp
qed

theorem validation_error_keeps_model_witness:
  "ValidateGameVersions fixture_stat_refused fixture_two_dirs fixture_service =
     (Inl ErrIO, fixture_cached (fixture_model_a @ [fixture_item_b])) \<and>
   configRead fixture_stat_refused = Inr \<lparr>Games = fixture_games, LaunchDelay = 1000\<rparr> \<and>
   patchFileModel fixture_service = [] \<and>
   fixture_model_a @ [fixture_item_b] =
     map item_of
       [\<lparr>Action = ActionDownload, File = entry ''Patch_D2.mpq'' ''p1'' 8 False False,
          D2Path = ''C:/D2a'', LocalCRC = []\<rparr>,
        \<lparr>Action = ActionDownload, File = entry ''BH.dll'' ''b1'' 3 False False,
          D2Path = ''C:/D2a'', LocalCRC = []\<rparr>,
        \<lparr>Action = ActionDownload, File = entry ''BH.cfg'' ''c1'' 1 False False,
          D2Path = ''C:/D2a'', LocalCRC = []\<rparr>,
        \<lparr>Action = ActionDownload, File = entry ''Patch_D2.mpq'' ''p1'' 8 False False,
          D2Path = ''C:/D2b'', LocalCRC = []\<rparr>] \<and>
   (\<exists>processed rest.
      validation_targets fixture_stat_refused fixture_two_dirs
        \<lparr>Files = [entry ''Game.exe'' ''g1'' 9 False False]\<rparr>
        \<lparr>Files = [entry ''Patch_D2.mpq'' ''p1'' 8 False False]\<rparr>
        \<lparr>HD = [], Maphack = [''v1'', ''v2'']\<rparr> fixture_games =
        map Inr processed @ Inl ErrIO # rest
    \<and> fixture_model_a @ [fixture_item_b] = map item_of (concat processed))"
proof -
  have g: "Games \<lparr>Games = fixture_games, LaunchDelay = 1000\<rparr> = fixture_games" by simp
  have m: "patchFileModel (fixture_cached (fixture_model_a @ [fixture_item_b])) =
       fixture_model_a @ [fixture_item_b]"
    by (simp add: fixture_cached_def)
  have e: "patchFileModel fixture_service = []" by (simp add: fixture_service_def)
  note r = validation_error_keeps_model [OF fx_run fx_conf fx_base fx_current fx_mods,
             unfolded g m e append_Nil]
  have i: "fixture_model_a @ [fixture_item_b] =
     map item_of
       [\<lparr>Action = ActionDownload, File = entry ''Patch_D2.mpq'' ''p1'' 8 False False,
          D2Path = ''C:/D2a'', LocalCRC = []\<rparr>,
        \<lparr>Action = ActionDownload, File = entry ''BH.dll'' ''b1'' 3 False False,
          D2Path = ''C:/D2a'', LocalCRC = []\<rparr>,
        \<lparr>Action = ActionDownload, File = entry ''BH.cfg'' ''c1'' 1 False False,
          D2Path = ''C:/D2a'', LocalCRC = []\<rparr>,
        \<lparr>Action = ActionDownload, File = entry ''Patch_D2.mpq'' ''p1'' 8 False False,
          D2Path = ''C:/D2b'', LocalCRC = []\<rparr>]"
    by (simp add: fixture_model_a_def fixture_item_b_def item_of_def entry_sel)
  from fx_run fx_conf e i r show ?thesis by (intro conjI)
qed

section \<open>The round trip of a diff, settled\<close>

lemmas rt_defs = fixture_rt_files_def fixture_rt_actions_def fixture_rt_before_def
  fixture_rt_downloaded_def fixture_rt_patched_def fixture_env_def one_dir_def

lemma fixture_rt_diff:
  "getFilesToPatch fixture_env fixture_rt_before fixture_rt_files ''C:/D2'' [] =
     Inr (fixture_rt_actions, 9)"
  by (simp add: getFilesToPatch_def rt_defs entry_def disk_defs)

lemma entry_satisfied_after_actions_applied:
  assumes diff: "getFilesToPatch E d files d2path filesToIgnore = Inr (actions, totalLength)"
    and dist: "distinct (map Name files)"
    and app: "actions_applied E d2path actions d d'"
    and f: "f \<in> set files"
  shows "getFilesToPatch E d' [f] d2path filesToIgnore = Inr ([], 0)"
proof -
  note ent = getFilesToPatch_entries [OF diff]
  from ent f obtain af nf where
    one: "getFilesToPatch E d [f] d2path filesToIgnore = Inr (af, nf)" and sub: "set af \<subseteq> set actions"
    by blast
  have unnamed: "\<forall>a \<in> set actions. Name f \<noteq> Name (File a)" if "af = []"
  proof
    fix a assume a: "a \<in> set actions"
    with ent obtain g ag ng where g: "g \<in> set files"
      "getFilesToPatch E d [g] d2path filesToIgnore = Inr (ag, ng)" "a \<in> set ag"
      by blast
    have fa: "File a = g" by (rule getFilesToPatch_single_File [OF g(2,3)])
    show "Name f \<noteq> Name (File a)"
    proof
      assume "Name f = Name (File a)"
      with fa have "f = g" using distinct_Name_eq [OF dist f g(1)] by simp
      with one g(2,3) that show False by simp
    qed
  qed
  have same: "lookup d' d2path (Name f) = lookup d d2path (Name f)" if "af = []"
    by (rule actions_applied_frame [OF app unnamed [OF that]])
  show "getFilesToPatch E d' [f] d2path filesToIgnore = Inr ([], 0)"
  proof (cases "af = []")
    case True
    from one True same [OF True] show ?thesis
      by (simp add: getFilesToPatch_single split: if_splits option.splits)
  next
    case False
    then obtain a where af: "a \<in> set af" by (cases af) auto
    with sub have a: "a \<in> set actions" by blast
    have fa: "File a = f" by (rule getFilesToPatch_single_File [OF one af])
    show ?thesis
    proof (cases "Action a")
      case ActionDownload
      from actions_applied_download [OF app a ActionDownload] fa
      obtain c where c: "lookup d' d2path (Name f) = Some c" "checksum E c = CRC f" by auto
      from one af ActionDownload c show ?thesis
        by (auto simp: getFilesToPatch_single split: if_splits option.splits)
    next
      case ActionDelete
      from actions_applied_delete [OF app a ActionDelete] fa
      have c: "lookup d' d2path (Name f) = None" by simp
      from one af ActionDelete c show ?thesis
        by (auto simp: getFilesToPatch_single split: if_splits option.splits)
    qed
  qed
qed

text \<open>
  Claim C9, as it is stated, fails on a manifest with a deprecated entry whose file is on
  disk: the diff asks for a \<^verbatim>\<open>Delete\<close>, applying the \<^verbatim>\<open>Download\<close> actions leaves the file,
  and the second diff asks for the \<^verbatim>\<open>Delete\<close> again.
\<close>

theorem roundtrip_downloads_only_counterexample:
  "getFilesToPatch fixture_env fixture_rt_before fixture_rt_files ''C:/D2'' [] =
     Inr (fixture_rt_actions, 9) \<and>
   downloads_applied fixture_env ''C:/D2'' fixture_rt_actions fixture_rt_before
     fixture_rt_downloaded \<and>
   getFilesToPatch fixture_env fixture_rt_downloaded fixture_rt_files ''C:/D2'' [] =
     Inr ([\<lparr>Action = ActionDelete, File = entry ''old.dll'' ''o0'' 4 False True,
             D2Path = ''C:/D2'', LocalCRC = ''o1''\<rparr>], 0)"
proof -
  have a: "downloads_applied fixture_env ''C:/D2'' fixture_rt_actions fixture_rt_before
     fixture_rt_downloaded"
    by (simp add: downloads_applied_def rt_defs entry_def lookup_def)
  have r: "getFilesToPatch fixture_env fixture_rt_downloaded fixture_rt_files ''C:/D2'' [] =
     Inr ([\<lparr>Action = ActionDelete, File = entry ''old.dll'' ''o0'' 4 False True,
             D2Path = ''C:/D2'', LocalCRC = ''o1''\<rparr>], 0)"
    by (simp add: getFilesToPatch_def rt_defs entry_def disk_defs)
  from fixture_rt_diff a r show ?thesis by (intro conjI)
qed

text \<open>
  Claim C9, amended. For a manifest in which no two entries have the same name, if every
  action of a diff is applied (each downloaded file has a content whose checksum is the
  entry's remote checksum, each deleted file is gone, the other files are unchanged),
  the diff of the same manifest with the same ignore list against the resulting
  directory returns without error, with no action and a total of zero.
\<close>

theorem diff_empty_after_applying_all_actions:
  assumes "getFilesToPatch E d files d2path filesToIgnore = Inr (actions, totalLength)"
    and "distinct (map Name files)"
    and "actions_applied E d2path actions d d'"
  shows "getFilesToPatch E d' files d2path filesToIgnore = Inr ([], 0)"
proof (rule getFilesToPatch_all_satisfied, rule ballI)
  fix f assume "f \<in> set files"
  with assms show "getFilesToPatch E d' [f] d2path filesToIgnore = Inr ([], 0)"
    by (rule entry_satisfied_after_actions_applied)
qed

lemma fixture_rt_applied:
  "actions_applied fixture_env ''C:/D2'' fixture_rt_actions fixture_rt_before fixture_rt_patched"
  by (simp add: actions_applied_def rt_defs entry_def lookup_def)

lemma fixture_rt_distinct: "distinct (map Name fixture_rt_files)"
  by (simp add: fixture_rt_files_def entry_def)

theorem diff_empty_after_applying_all_actions_witness:
  "getFilesToPatch fixture_env fixture_rt_before fixture_rt_files ''C:/D2'' [] =
     Inr (fixture_rt_actions, 9) \<and>
   distinct (map Name fixture_rt_files) \<and>
   actions_applied fixture_env ''C:/D2'' fixture_rt_actions fixture_rt_before fixture_rt_patched \<and>
   getFilesToPatch fixture_env fixture_rt_patched fixture_rt_files ''C:/D2'' [] = Inr ([], 0)"
  using fixture_rt_diff fixture_rt_distinct fixture_rt_applied
    diff_empty_after_applying_all_actions
      [OF fixture_rt_diff fixture_rt_distinct fixture_rt_applied]
  by (intro conjI)

section \<open>Properties of the process orchestrator\<close>

text \<open>
  Go's \<^verbatim>\<open>int\<close> and \<^verbatim>\<open>time.Duration\<close> are 64-bit signed integers: the subtraction of
  \<^verbatim>\<open>mutateInstancesToLaunch\<close>, the loop counter and the product
  \<^verbatim>\<open>time.Duration(delayMS) * time.Millisecond\<close> wrap around. The lemmas below say when they
  do not.
\<close>

lemma sint_Suc:
  fixes i n :: "64 word"
  assumes "i <s n"
  shows "sint (i + 1) = sint i + 1"
proof -
  have "sint i < sint n" using assms by (simp add: word_sless_alt)
  moreover have "sint n < 2 ^ 63" using sint_lt [of n] by simp
  moreover have "- (2 ^ 63) \<le> sint i" using sint_ge [of i] by simp
  ultimately have r: "- (2 ^ 63) \<le> sint i + 1" "sint i + 1 < 2 ^ 63" by simp_all
  have "i + 1 = word_of_int (sint i + 1)" by simp
  then have "sint (i + 1) = signed_take_bit 63 (sint i + 1)"
    by (simp only: sint_sbintrunc') simp
  with r show ?thesis by (simp add: signed_take_bit_int_eq_self)
qed

lemma sint_sub_count:
  fixes a :: "64 word"
  assumes "- (2 ^ 63) \<le> sint a - int c"
  shows "sint (a - of_nat c) = sint a - int c"
proof -
  have u: "sint a - int c < 2 ^ 63" using sint_lt [of a] by simp
  have "a - of_nat c = word_of_int (sint a - int c)" by simp
  then have "sint (a - of_nat c) = signed_take_bit 63 (sint a - int c)"
    by (simp only: sint_sbintrunc') simp
  with assms u show ?thesis by (simp add: signed_take_bit_int_eq_self)
qed

lemma sint_mul_Millisecond:
  fixes d :: "64 word"
  assumes "- (2 ^ 63) \<le> sint d * 1000000" "sint d * 1000000 < 2 ^ 63"
  shows "sint (d * time_Millisecond) = sint d * 1000000"
proof -
  have "d * 1000000 = word_of_int (sint d * 1000000)" by simp
  then have "sint (d * 1000000) = signed_take_bit 63 (sint d * 1000000)"
    by (simp only: sint_sbintrunc') simp
  with assms show ?thesis by (simp add: signed_take_bit_int_eq_self time_Millisecond_def)
qed

lemma sint_eq_0: "(sint (i :: 64 word) = 0) = (i = 0)"
  by (rule signed_eq_0_iff)

lemma runningCount_eq:
  "runningCount rs gameID n =
     n + of_nat (length (filter (\<lambda>running. GameID running = gameID) rs))"
  by (induction rs arbitrary: n) auto

lemma launch_events_Suc:
  "launch_events delay k g (Suc n) =
     launch_events delay k g n
       @ (if k = 0 \<and> n = 0 then [] else [Sleep delay]) @ [Launch (Location g) (Flags g)]"
  by (simp add: launch_events_def)

lemma Exec_instances_done:
  "\<not> i <s Instances g \<Longrightarrow> Exec_instances E delayMS k g i s tr = (None, s, tr)"
  by (subst Exec_instances.simps) simp

lemma Exec_instances_step:
  assumes "i <s Instances g"
  shows "Exec_instances E delayMS k g i s tr =
     (case launch E (tr @ (if k = 0 \<and> i = 0 then [] else [Sleep (delayMS * time_Millisecond)]))
             (Location g) (Flags g) of
        Inl err \<Rightarrow>
          (Some err, s,
           tr @ (if k = 0 \<and> i = 0 then [] else [Sleep (delayMS * time_Millisecond)])
              @ [Launch (Location g) (Flags g)])
      | Inr pid \<Rightarrow>
          Exec_instances E delayMS k g (i + 1)
            (s\<lparr>runningGames := runningGames s @ [\<lparr>PID = pid, GameID = ID g\<rparr>]\<rparr>)
            (tr @ (if k = 0 \<and> i = 0 then [] else [Sleep (delayMS * time_Millisecond)])
                @ [Launch (Location g) (Flags g)]))"
proof (cases "k = 0 \<and> i = 0")
  case True
  with assms show ?thesis
    by (subst Exec_instances.simps) (simp add: Let_def split: sum.splits)
next
  case False
  with assms show ?thesis
    by (subst Exec_instances.simps) (auto simp: Let_def split: sum.splits)
qed

text \<open>
  The loop over the instances of one installation, started at \<open>i\<close>: when it returns
  without error it has issued the launches \<open>i\<close> to \<open>Instances g - 1\<close>, and has recorded a
  running process for each.
\<close>

lemma Exec_instances_ok:
  assumes "Exec_instances E delayMS k g i s tr = (None, s', tr')"
    and "0 \<le> sint i" and "sint i \<le> sint (Instances g)"
    and "tr = tr0 @ launch_events (delayMS * time_Millisecond) k g (nat (sint i))"
  shows "tr' = tr0 @ launch_events (delayMS * time_Millisecond) k g (nat (sint (Instances g)))
       \<and> map GameID (runningGames s') =
           map GameID (runningGames s)
             @ replicate (nat (sint (Instances g) - sint i)) (ID g)"
  using assms
proof (induction "nat (sint (Instances g) - sint i)" arbitrary: i s tr)
  case 0
  then have eq: "sint i = sint (Instances g)" by simp
  then have "\<not> i <s Instances g" by (simp add: word_sless_alt)
  with "0.prems" eq show ?case by (simp add: Exec_instances_done)
next
  case (Suc n)
  then have lt: "i <s Instances g" by (simp add: word_sless_alt)
  note si = sint_Suc [OF lt]
  let ?pre = "if k = 0 \<and> i = 0 then [] else [Sleep (delayMS * time_Millisecond)]"
  let ?tr1 = "tr @ ?pre @ [Launch (Location g) (Flags g)]"
  obtain pid where l: "launch E (tr @ ?pre) (Location g) (Flags g) = Inr pid"
    using Suc.prems(1) by (cases "launch E (tr @ ?pre) (Location g) (Flags g)")
                          (simp_all add: Exec_instances_step [OF lt])
  let ?s1 = "s\<lparr>runningGames := runningGames s @ [\<lparr>PID = pid, GameID = ID g\<rparr>]\<rparr>"
  have rec: "Exec_instances E delayMS k g (i + 1) ?s1 ?tr1 = (None, s', tr')"
    using Suc.prems(1) l by (simp add: Exec_instances_step [OF lt])
  have n: "nat (sint (i + 1)) = Suc (nat (sint i))" using Suc.prems(2) si by simp
  have i0: "(i = 0) = (nat (sint i) = 0)" using Suc.prems(2) sint_eq_0 [of i] by simp
  have t: "?tr1 = tr0 @ launch_events (delayMS * time_Millisecond) k g (nat (sint (i + 1)))"
    by (simp add: n launch_events_Suc Suc.prems(4) i0)
  have m: "n = nat (sint (Instances g) - sint (i + 1))" using Suc.hyps(2) si by simp
  have b1: "0 \<le> sint (i + 1)" using Suc.prems(2) si by simp
  have b2: "sint (i + 1) \<le> sint (Instances g)" using lt si by (simp add: word_sless_alt)
  from Suc.hyps(1) [OF m rec b1 b2 t]
  have "tr' = tr0 @ launch_events (delayMS * time_Millisecond) k g (nat (sint (Instances g)))"
    and "map GameID (runningGames s') =
           map GameID (runningGames ?s1)
             @ replicate (nat (sint (Instances g) - sint (i + 1))) (ID g)"
    by simp_all
  moreover have "nat (sint (Instances g) - sint i) = Suc (nat (sint (Instances g) - sint (i + 1)))"
    using lt si by (simp add: word_sless_alt)
  ultimately show ?case by (simp add: replicate_append_same)
qed

lemma Exec_instances_count:
  assumes "Exec_instances E delayMS k g i s tr = (r, s', tr')"
  shows "length (runningGames s') + (if r = None then 0 else 1) + length (filter is_Launch tr) =
         length (runningGames s) + length (filter is_Launch tr')"
  using assms
proof (induction "nat (sint (Instances g) - sint i)" arbitrary: i s tr)
  case 0
  then have "\<not> i <s Instances g" by (simp add: word_sless_alt)
  with "0.prems" show ?case by (simp add: Exec_instances_done)
next
  case (Suc n)
  then have lt: "i <s Instances g" by (simp add: word_sless_alt)
  note si = sint_Suc [OF lt]
  let ?pre = "if k = 0 \<and> i = 0 then [] else [Sleep (delayMS * time_Millisecond)]"
  have m: "n = nat (sint (Instances g) - sint (i + 1))" using Suc.hyps(2) si by simp
  show ?case
  proof (cases "launch E (tr @ ?pre) (Location g) (Flags g)")
    case (Inl err)
    with Suc.prems show ?thesis
      by (auto simp: Exec_instances_step [OF lt] is_Launch_def)
  next
    case (Inr pid)
    with Suc.prems have rec: "Exec_instances E delayMS k g (i + 1)
        (s\<lparr>runningGames := runningGames s @ [\<lparr>PID = pid, GameID = ID g\<rparr>]\<rparr>)
        (tr @ ?pre @ [Launch (Location g) (Flags g)]) = (r, s', tr')"
      by (simp add: Exec_instances_step [OF lt])
    from Suc.hyps(1) [OF m rec] show ?thesis
      by (auto simp: is_Launch_def)
  qed
qed

lemma Exec_instances_prefix:
  assumes "Exec_instances E delayMS k g i s tr = (r, s', tr')"
  shows "prefix (runningGames s) (runningGames s')"
  using assms
proof (induction "nat (sint (Instances g) - sint i)" arbitrary: i s tr)
  case 0
  then have "\<not> i <s Instances g" by (simp add: word_sless_alt)
  with "0.prems" show ?case by (simp add: Exec_instances_done)
next
  case (Suc n)
  then have lt: "i <s Instances g" by (simp add: word_sless_alt)
  note si = sint_Suc [OF lt]
  let ?pre = "if k = 0 \<and> i = 0 then [] else [Sleep (delayMS * time_Millisecond)]"
  have m: "n = nat (sint (Instances g) - sint (i + 1))" using Suc.hyps(2) si by simp
  show ?case
  proof (cases "launch E (tr @ ?pre) (Location g) (Flags g)")
    case (Inl err)
    with Suc.prems show ?thesis by (auto simp: Exec_instances_step [OF lt])
  next
    case (Inr pid)
    with Suc.prems have rec: "Exec_instances E delayMS k g (i + 1)
        (s\<lparr>runningGames := runningGames s @ [\<lparr>PID = pid, GameID = ID g\<rparr>]\<rparr>)
        (tr @ ?pre @ [Launch (Location g) (Flags g)]) = (r, s', tr')"
      by (simp add: Exec_instances_step [OF lt])
    from Suc.hyps(1) [OF m rec] show ?thesis
      by (auto dest: append_prefixD)
  qed
qed

lemma Exec_games_prefix:
  assumes "Exec_games E delayMS k games s tr = (r, s', tr')"
  shows "prefix (runningGames s) (runningGames s')"
  using assms
proof (induction games arbitrary: k s tr)
  case Nil
  then show ?case by simp
next
  case (Cons g games)
  show ?case
  proof (cases "0 <s Instances g")
    case False
    with Cons.prems Cons.IH show ?thesis by simp
  next
    case True
    obtain r1 s1 tr1 where i: "Exec_instances E delayMS k g 0 s tr = (r1, s1, tr1)"
      by (cases "Exec_instances E delayMS k g 0 s tr")
    note p1 = Exec_instances_prefix [OF i]
    show ?thesis
    proof (cases r1)
      case (Some err)
      with Cons.prems True i have "s' = s1" by simp
      with p1 show ?thesis by simp
    next
      case None
      with Cons.prems True i have "Exec_games E delayMS (Suc k) games s1 tr1 = (r, s', tr')" by simp
      from Cons.IH [OF this] p1 show ?thesis using prefix_order.trans by blast
    qed
  qed
qed

lemma Exec_games_count:
  assumes "Exec_games E delayMS k games s tr = (r, s', tr')"
  shows "length (runningGames s') + (if r = None then 0 else 1) + length (filter is_Launch tr) =
         length (runningGames s) + length (filter is_Launch tr')"
  using assms
proof (induction games arbitrary: k s tr)
  case Nil
  then show ?case by simp
next
  case (Cons g games)
  show ?case
  proof (cases "0 <s Instances g")
    case False
    with Cons.prems Cons.IH show ?thesis by simp
  next
    case True
    obtain r1 s1 tr1 where i: "Exec_instances E delayMS k g 0 s tr = (r1, s1, tr1)"
      by (cases "Exec_instances E delayMS k g 0 s tr")
    note c1 = Exec_instances_count [OF i]
    show ?thesis
    proof (cases r1)
      case (Some err)
      with Cons.prems True i have "s' = s1" "tr' = tr1" "r = Some err" by simp_all
      with c1 Some show ?thesis by simp
    next
      case None
      with Cons.prems True i have "Exec_games E delayMS (Suc k) games s1 tr1 = (r, s', tr')" by simp
      from Cons.IH [OF this] c1 None show ?thesis by simp
    qed
  qed
qed

lemma launch_events_cong:
  "Location g' = Location g \<Longrightarrow> Flags g' = Flags g \<Longrightarrow>
     launch_events delay k g' n = launch_events delay k g n"
  by (simp add: launch_events_def)

text \<open>
  The loop over the installations, on the slice that \<^verbatim>\<open>mutateInstancesToLaunch\<close> has
  written, when no subtraction has wrapped around.
\<close>

lemma Exec_games_ok:
  assumes "Exec_games E delayMS k (mutateInstancesToLaunch s0 games) s tr = (None, s', tr')"
    and "\<forall>g \<in> set games.
           - (2 ^ 63) \<le> sint (Instances g)
              - int (length (filter (\<lambda>running. GameID running = ID g) (runningGames s0)))"
  shows "tr' = tr @ expected_trace (delayMS * time_Millisecond) k s0 games
       \<and> map GameID (runningGames s') = map GameID (runningGames s) @ expected_ids s0 games"
  using assms
proof (induction games arbitrary: k s tr)
  case Nil
  then show ?case by simp
next
  case (Cons g games)
  let ?c = "length (filter (\<lambda>running. GameID running = ID g) (runningGames s0))"
  let ?g = "g\<lparr>Instances := Instances g - runningCount (runningGames s0) (ID g) 0\<rparr>"
  have nw: "- (2 ^ 63) \<le> sint (Instances g) - int ?c" using Cons.prems(2) by simp
  have rest_nw: "\<forall>g \<in> set games.
           - (2 ^ 63) \<le> sint (Instances g)
              - int (length (filter (\<lambda>running. GameID running = ID g) (runningGames s0)))"
    using Cons.prems(2) by simp
  have si: "sint (Instances g - runningCount (runningGames s0) (ID g) 0) = sint (Instances g) - int ?c"
    using sint_sub_count [OF nw] by (simp add: runningCount_eq)
  have due: "nat (sint (Instances ?g)) = instances_due s0 g"
    by (simp add: si instances_due_def)
  have pos: "(0 <s Instances ?g) = (0 < sint (Instances ?g))"
    by (simp add: word_sless_alt)
  have ev: "\<And>n. launch_events (delayMS * time_Millisecond) k ?g n =
                 launch_events (delayMS * time_Millisecond) k g n"
    by (rule launch_events_cong) simp_all
  show ?case
  proof (cases "0 <s Instances ?g")
    case False
    then have z: "instances_due s0 g = 0" using due pos by simp
    from False Cons.prems(1)
    have "Exec_games E delayMS (Suc k) (mutateInstancesToLaunch s0 games) s tr = (None, s', tr')"
      by simp
    from Cons.IH [OF this rest_nw] z show ?thesis by (simp add: launch_events_def)
  next
    case True
    obtain r1 s1 tr1 where i: "Exec_instances E delayMS k ?g 0 s tr = (r1, s1, tr1)"
      by (cases "Exec_instances E delayMS k ?g 0 s tr")
    with Cons.prems(1) True have r1: "r1 = None"
      and rest: "Exec_games E delayMS (Suc k) (mutateInstancesToLaunch s0 games) s1 tr1
                   = (None, s', tr')"
      by (auto split: option.splits)
    have t0: "tr = tr @ launch_events (delayMS * time_Millisecond) k ?g (nat (sint (0 :: 64 word)))"
      by (simp add: launch_events_def)
    have b1: "0 \<le> sint (0 :: 64 word)" by simp
    have b2: "sint (0 :: 64 word) \<le> sint (Instances ?g)" using True pos by simp
    from Exec_instances_ok [OF i [unfolded r1] b1 b2 t0]
    have "tr1 = tr @ launch_events (delayMS * time_Millisecond) k g (instances_due s0 g)"
      and "map GameID (runningGames s1) =
             map GameID (runningGames s) @ replicate (instances_due s0 g) (ID g)"
      using due ev by simp_all
    with Cons.IH [OF rest rest_nw] show ?thesis by simp
  qed
qed

lemma Exec_conf:
  "configRead E = Inr conf \<Longrightarrow> LaunchDelay conf \<noteq> 0 \<Longrightarrow>
     Exec E s = Exec_games E (LaunchDelay conf) 0 (mutateInstancesToLaunch s (Games conf)) s []"
  by (simp add: Exec_def Let_def)

text \<open>
  \<^verbatim>\<open>Exec\<close> on the fixtures: with a running process of the first installation, with a launch
  delay beyond the range of \<^verbatim>\<open>time.Duration\<close>, and with the least instance count.
\<close>

lemma fixture_Exec_running: "Exec fixture_mods fixture_running =
     (None,
      fixture_running\<lparr>runningGames :=
        [\<lparr>PID = 77, GameID = ''a''\<rparr>, \<lparr>PID = 0, GameID = ''a''\<rparr>,
         \<lparr>PID = 2, GameID = ''a''\<rparr>, \<lparr>PID = 4, GameID = ''b''\<rparr>]\<rparr>,
      [Launch ''C:/D2a'' [''-w''], Sleep 1000000000, Launch ''C:/D2a'' [''-w''],
       Sleep 1000000000, Launch ''C:/D2b'' [''-w'', ''-skiptobnet'']])"
proof -
  have c: "configRead fixture_mods = Inr \<lparr>Games = fixture_games, LaunchDelay = 1000\<rparr>"
    by (simp add: fixture_mods_def fixture_env_def)
  have l: "launch fixture_mods = (\<lambda>tr location flags. Inr (int (length tr)))"
    by (simp add: fixture_mods_def fixture_env_def)
  have m: "mutateInstancesToLaunch fixture_running fixture_games =
             [fixture_game_a\<lparr>Instances := 2\<rparr>, fixture_game_b]"
    by (simp add: fixture_games_def fixture_running_def fixture_game_a_def fixture_game_b_def)
  have a: "\<And>s tr. Exec_instances fixture_mods 1000 0 (fixture_game_a\<lparr>Instances := 2\<rparr>) 0 s tr =
      (None, s\<lparr>runningGames := runningGames s @
                 [\<lparr>PID = int (length tr), GameID = ''a''\<rparr>,
                  \<lparr>PID = int (length tr) + 2, GameID = ''a''\<rparr>]\<rparr>,
       tr @ [Launch ''C:/D2a'' [''-w''], Sleep 1000000000, Launch ''C:/D2a'' [''-w'']])"
    apply (subst Exec_instances_step, simp add: word_sless_alt)
    apply (simp add: l)
    apply (subst Exec_instances_step, simp add: word_sless_alt)
    apply (simp add: l)
    apply (subst Exec_instances_done, simp add: word_sless_alt)
    apply (simp add: fixture_game_a_def time_Millisecond_def)
    done
  have b: "\<And>s tr. Exec_instances fixture_mods 1000 (Suc 0) fixture_game_b 0 s tr =
      (None, s\<lparr>runningGames := runningGames s @
                 [\<lparr>PID = int (length tr) + 1, GameID = ''b''\<rparr>]\<rparr>,
       tr @ [Sleep 1000000000, Launch ''C:/D2b'' [''-w'', ''-skiptobnet'']])"
    apply (subst Exec_instances_step, simp add: fixture_game_b_def word_sless_alt)
    apply (simp add: l)
    apply (subst Exec_instances_done, simp add: fixture_game_b_def word_sless_alt)
    apply (simp add: fixture_game_b_def time_Millisecond_def)
    done
  have ia: "0 <s Instances (fixture_game_a\<lparr>Instances := 2\<rparr>)" "0 <s Instances fixture_game_b"
    by (simp_all add: fixture_game_b_def word_sless_alt)
  show ?thesis
    by (simp only: Exec_conf [OF c, simplified] m) (simp add: ia [simplified] a b fixture_running_def)
qed

lemma fixture_Exec_long_delay:
  "Exec fixture_long_delay fixture_running =
     (None,
      fixture_running\<lparr>runningGames :=
        [\<lparr>PID = 77, GameID = ''a''\<rparr>, \<lparr>PID = 0, GameID = ''a''\<rparr>,
         \<lparr>PID = 2, GameID = ''a''\<rparr>]\<rparr>,
      [Launch ''C:/D2a'' [''-w''], Sleep (9223372036855 * time_Millisecond),
       Launch ''C:/D2a'' [''-w'']])"
proof -
  have c: "configRead fixture_long_delay =
             Inr \<lparr>Games = [fixture_game_a], LaunchDelay = 9223372036855\<rparr>"
    by (simp add: fixture_long_delay_def fixture_mods_def fixture_env_def)
  have l: "launch fixture_long_delay = (\<lambda>tr location flags. Inr (int (length tr)))"
    by (simp add: fixture_long_delay_def fixture_mods_def fixture_env_def)
  have m: "mutateInstancesToLaunch fixture_running [fixture_game_a] =
             [fixture_game_a\<lparr>Instances := 2\<rparr>]"
    by (simp add: fixture_running_def fixture_game_a_def)
  have a: "Exec_instances fixture_long_delay 9223372036855 0 (fixture_game_a\<lparr>Instances := 2\<rparr>)
             0 fixture_running [] =
      (None, fixture_running\<lparr>runningGames :=
        [\<lparr>PID = 77, GameID = ''a''\<rparr>, \<lparr>PID = 0, GameID = ''a''\<rparr>,
         \<lparr>PID = 2, GameID = ''a''\<rparr>]\<rparr>,
       [Launch ''C:/D2a'' [''-w''], Sleep (9223372036855 * time_Millisecond),
        Launch ''C:/D2a'' [''-w'']])"
    apply (subst Exec_instances_step, simp add: word_sless_alt)
    apply (simp add: l)
    apply (subst Exec_instances_step, simp add: word_sless_alt)
    apply (simp add: l)
    apply (subst Exec_instances_done, simp add: word_sless_alt)
    apply (simp add: fixture_game_a_def fixture_running_def)
    done
  have "Exec fixture_long_delay fixture_running =
          Exec_games fixture_long_delay 9223372036855 0
            (mutateInstancesToLaunch fixture_running [fixture_game_a]) fixture_running []"
    using Exec_conf [OF c] by simp
  then show ?thesis
    by (simp only: m) (simp add: word_sless_alt a)
qed

lemma fixture_Exec_wrap:
  "Exec fixture_wrap fixture_running =
     (Some ErrLaunch,
      fixture_running\<lparr>runningGames :=
        [\<lparr>PID = 77, GameID = ''a''\<rparr>, \<lparr>PID = 7, GameID = ''a''\<rparr>]\<rparr>,
      [Launch ''C:/D2a'' [''-w''], Sleep 1000000000, Launch ''C:/D2a'' [''-w'']])"
proof -
  have c: "configRead fixture_wrap = Inr \<lparr>Games = [fixture_game_min], LaunchDelay = 1000\<rparr>"
    by (simp add: fixture_wrap_def fixture_env_def)
  have l: "launch fixture_wrap = (\<lambda>tr location flags. if tr = [] then Inr 7 else Inl ErrLaunch)"
    by (simp add: fixture_wrap_def fixture_env_def)
  have i: "Instances fixture_game_min = - 9223372036854775808"
    by (simp add: fixture_game_min_def)
  have g: "runningGames fixture_running = [\<lparr>PID = 77, GameID = ID fixture_game_min\<rparr>]"
    by (simp add: fixture_running_def fixture_game_min_def fixture_game_a_def)
  have d: "instances_due fixture_running fixture_game_min = 0"
    by (simp add: instances_due_def g i)
  have m: "mutateInstancesToLaunch fixture_running [fixture_game_min] =
             [fixture_game_a\<lparr>Instances := 9223372036854775807\<rparr>]"
    by (simp add: g i) (simp add: fixture_game_min_def)
  have p: "0 <s Instances (fixture_game_a\<lparr>Instances := 9223372036854775807\<rparr>)"
    by (simp add: word_sless_alt)
  have p1: "(0 + 1 :: 64 word) <s Instances (fixture_game_a\<lparr>Instances := 9223372036854775807\<rparr>)"
    by (simp add: word_sless_alt)
  have a: "Exec_instances fixture_wrap 1000 0 (fixture_game_a\<lparr>Instances := 9223372036854775807\<rparr>)
             0 fixture_running [] =
      (Some ErrLaunch,
       fixture_running\<lparr>runningGames :=
         [\<lparr>PID = 77, GameID = ''a''\<rparr>, \<lparr>PID = 7, GameID = ''a''\<rparr>]\<rparr>,
       [Launch ''C:/D2a'' [''-w''], Sleep 1000000000, Launch ''C:/D2a'' [''-w'']])"
    apply (subst Exec_instances_step, rule p)
    apply (simp add: l)
    apply (subst Exec_instances.simps)
    apply (simp add: l p1 [simplified] time_Millisecond_def fixture_game_a_def fixture_running_def)
    done
  have e: "Exec fixture_wrap fixture_running =
     (Some ErrLaunch,
      fixture_running\<lparr>runningGames :=
        [\<lparr>PID = 77, GameID = ''a''\<rparr>, \<lparr>PID = 7, GameID = ''a''\<rparr>]\<rparr>,
      [Launch ''C:/D2a'' [''-w''], Sleep 1000000000, Launch ''C:/D2a'' [''-w'']])"
  proof -
    have "Exec fixture_wrap fixture_running =
            Exec_games fixture_wrap 1000 0
              (mutateInstancesToLaunch fixture_running [fixture_game_min]) fixture_running []"
      using Exec_conf [OF c] by simp
    then show ?thesis
      by (simp only: m) (simp add: p [simplified] a)
  qed
  from e show ?thesis .
qed

text \<open>
  Claim C8, as it is stated, fails where Go's integers wrap around. An installation
  configured with the least instance count of Go's \<^verbatim>\<open>int\<close> has one running process: the
  count less the running processes is not positive, so no launch is due, but the
  subtraction of \<^verbatim>\<open>mutateInstancesToLaunch\<close> gives the greatest \<^verbatim>\<open>int\<close> and \<^verbatim>\<open>Exec\<close>
  launches (here until the launcher fails, at the second launch). And with a configured
  delay of 9223372036855 milliseconds, the second launch is preceded by a sleep of
  \<^verbatim>\<open>time.Duration(delayMS) * time.Millisecond\<close>, which is negative: no delay at all.
\<close>

theorem Exec_wraps_around_counterexample:
  "Instances fixture_game_min = - 9223372036854775808 \<and>
   configRead fixture_wrap = Inr \<lparr>Games = [fixture_game_min], LaunchDelay = 1000\<rparr> \<and>
   runningGames fixture_running = [\<lparr>PID = 77, GameID = ID fixture_game_min\<rparr>] \<and>
   instances_due fixture_running fixture_game_min = 0 \<and>
   Exec fixture_wrap fixture_running =
     (Some ErrLaunch,
      fixture_running\<lparr>runningGames :=
        [\<lparr>PID = 77, GameID = ''a''\<rparr>, \<lparr>PID = 7, GameID = ''a''\<rparr>]\<rparr>,
      [Launch ''C:/D2a'' [''-w''], Sleep 1000000000, Launch ''C:/D2a'' [''-w'']]) \<and>
   configRead fixture_long_delay =
     Inr \<lparr>Games = [fixture_game_a], LaunchDelay = 9223372036855\<rparr> \<and>
   Exec fixture_long_delay fixture_running =
     (None,
      fixture_running\<lparr>runningGames :=
        [\<lparr>PID = 77, GameID = ''a''\<rparr>, \<lparr>PID = 0, GameID = ''a''\<rparr>,
         \<lparr>PID = 2, GameID = ''a''\<rparr>]\<rparr>,
      [Launch ''C:/D2a'' [''-w''], Sleep (9223372036855 * time_Millisecond),
       Launch ''C:/D2a'' [''-w'']]) \<and>
   sint (9223372036855 * time_Millisecond) = - 9223372036854551616"
proof -
  have i: "Instances fixture_game_min = - 9223372036854775808"
    by (simp add: fixture_game_min_def)
  have c: "configRead fixture_wrap = Inr \<lparr>Games = [fixture_game_min], LaunchDelay = 1000\<rparr>"
    by (simp add: fixture_wrap_def fixture_env_def)
  have g: "runningGames fixture_running = [\<lparr>PID = 77, GameID = ID fixture_game_min\<rparr>]"
    by (simp add: fixture_running_def fixture_game_min_def fixture_game_a_def)
  have d: "instances_due fixture_running fixture_game_min = 0"
    by (simp add: instances_due_def g i)
  have c': "configRead fixture_long_delay =
             Inr \<lparr>Games = [fixture_game_a], LaunchDelay = 9223372036855\<rparr>"
    by (simp add: fixture_long_delay_def fixture_mods_def fixture_env_def)
  have n: "sint (9223372036855 * time_Millisecond) = - 9223372036854551616"
    by (simp add: time_Millisecond_def)
  from i c g d fixture_Exec_wrap c' fixture_Exec_long_delay n show ?thesis by (intro conjI)
qed

text \<open>
  Claim C8, amended. Let no installation's instance count less the running processes of
  its id fall below the least \<^verbatim>\<open>int\<close>, and let the launch delay in nanoseconds (the
  configured delay, or the default when none is set, times 1000000) be in the range of
  \<^verbatim>\<open>time.Duration\<close>. Then a call of \<^verbatim>\<open>Exec\<close> that reads the configured installations and
  returns without error has done exactly the launches that the spec asks for: each
  installation is launched its instance count minus the running processes of its id (not
  at all when that is not positive), only the first instance of the first configured
  installation without a sleep before it, every other launch after a sleep of the launch
  delay, which is the delay in nanoseconds as a number; and the launches have added one
  running process each, with the installation's id, in the order of the launches.
  Whether or not a launch fails, every successful launch has added one entry to the
  running processes when \<^verbatim>\<open>Exec\<close> returns, and no entry was removed.
\<close>

theorem Exec_launches_due_instances:
  assumes "configRead E = Inr conf" and "Exec E s = (r, s', tr)"
    and "\<forall>g \<in> set (Games conf).
           - (2 ^ 63) \<le> sint (Instances g)
              - int (length (filter (\<lambda>running. GameID running = ID g) (runningGames s)))"
    and "delayMS = (if LaunchDelay conf = 0 then defaultLaunchDelay else LaunchDelay conf)"
    and "- (2 ^ 63) \<le> sint delayMS * 1000000" and "sint delayMS * 1000000 < 2 ^ 63"
  shows "(r = None \<longrightarrow>
           tr = expected_trace (delayMS * time_Millisecond) 0 s (Games conf)
         \<and> (\<exists>started. runningGames s' = runningGames s @ started
                     \<and> map GameID started = expected_ids s (Games conf)))
       \<and> sint (delayMS * time_Millisecond) = sint delayMS * 1000000
       \<and> prefix (runningGames s) (runningGames s')
       \<and> length (runningGames s') + (if r = None then 0 else 1) =
           length (runningGames s) + length (filter is_Launch tr)"
proof -
  have run: "Exec_games E delayMS 0 (mutateInstancesToLaunch s (Games conf)) s [] = (r, s', tr)"
    using assms(1,2,4) by (simp add: Exec_def Let_def)
  have p: "prefix (runningGames s) (runningGames s')"
    by (rule Exec_games_prefix [OF run])
  have c: "length (runningGames s') + (if r = None then 0 else 1) =
           length (runningGames s) + length (filter is_Launch tr)"
    using Exec_games_count [OF run] by simp
  have d: "sint (delayMS * time_Millisecond) = sint delayMS * 1000000"
    by (rule sint_mul_Millisecond [OF assms(5,6)])
  have "tr = expected_trace (delayMS * time_Millisecond) 0 s (Games conf)
         \<and> (\<exists>started. runningGames s' = runningGames s @ started
                     \<and> map GameID started = expected_ids s (Games conf))" if "r = None"
  proof -
    from Exec_games_ok [OF run [unfolded that] assms(3)]
    have t: "tr = expected_trace (delayMS * time_Millisecond) 0 s (Games conf)"
      and ids: "map GameID (runningGames s') =
                  map GameID (runningGames s) @ expected_ids s (Games conf)"
      by simp_all
    from p obtain started where st: "runningGames s' = runningGames s @ started"
      by (auto simp: prefix_def)
    with ids have "map GameID started = expected_ids s (Games conf)" by simp
    with t st show ?thesis by blast
  qed
  with p c d show ?thesis by blast
qed

theorem Exec_launches_due_instances_witness:
  "configRead fixture_mods = Inr \<lparr>Games = fixture_games, LaunchDelay = 1000\<rparr> \<and>
   runningGames fixture_running = [\<lparr>PID = 77, GameID = ID fixture_game_a\<rparr>] \<and>
   Exec fixture_mods fixture_running =
     (None,
      fixture_running\<lparr>runningGames :=
        [\<lparr>PID = 77, GameID = ''a''\<rparr>, \<lparr>PID = 0, GameID = ''a''\<rparr>,
         \<lparr>PID = 2, GameID = ''a''\<rparr>, \<lparr>PID = 4, GameID = ''b''\<rparr>]\<rparr>,
      [Launch ''C:/D2a'' [''-w''], Sleep 1000000000, Launch ''C:/D2a'' [''-w''],
       Sleep 1000000000, Launch ''C:/D2b'' [''-w'', ''-skiptobnet'']]) \<and>
   expected_trace (1000 * time_Millisecond) 0 fixture_running fixture_games =
      [Launch ''C:/D2a'' [''-w''], Sleep 1000000000, Launch ''C:/D2a'' [''-w''],
       Sleep 1000000000, Launch ''C:/D2b'' [''-w'', ''-skiptobnet'']] \<and>
   expected_ids fixture_running fixture_games = [''a'', ''a'', ''b''] \<and>
   sint (1000 * time_Millisecond) = 1000000000 \<and>
   prefix (runningGames fixture_running)
     (runningGames (fixture_running\<lparr>runningGames :=
        [\<lparr>PID = 77, GameID = ''a''\<rparr>, \<lparr>PID = 0, GameID = ''a''\<rparr>,
         \<lparr>PID = 2, GameID = ''a''\<rparr>, \<lparr>PID = 4, GameID = ''b''\<rparr>]\<rparr>))"
proof -
  have c: "configRead fixture_mods = Inr \<lparr>Games = fixture_games, LaunchDelay = 1000\<rparr>"
    by (simp add: fixture_mods_def fixture_env_def)
  have g: "runningGames fixture_running = [\<lparr>PID = 77, GameID = ID fixture_game_a\<rparr>]"
    by (simp add: fixture_running_def fixture_game_a_def)
  note e = fixture_Exec_running
  have n: "\<forall>g \<in> set (Games \<lparr>Games = fixture_games, LaunchDelay = 1000\<rparr>).
           - (2 ^ 63) \<le> sint (Instances g)
              - int (length (filter (\<lambda>running. GameID running = ID g)
                       (runningGames fixture_running)))"
    by (simp add: fixture_games_def fixture_running_def fixture_game_a_def fixture_game_b_def)
  have d: "(1000 :: 64 word) =
           (if LaunchDelay \<lparr>Games = fixture_games, LaunchDelay = 1000\<rparr> = 0
            then defaultLaunchDelay
            else LaunchDelay \<lparr>Games = fixture_games, LaunchDelay = 1000\<rparr>)"
    by simp
  have lo: "- (2 ^ 63) \<le> sint (1000 :: 64 word) * 1000000" by simp
  have hi: "sint (1000 :: 64 word) * 1000000 < 2 ^ 63" by simp
  have gs: "Games \<lparr>Games = fixture_games, LaunchDelay = 1000\<rparr> = fixture_games" by simp
  have sv: "sint (1000 :: 64 word) * 1000000 = 1000000000" by simp
  note r = Exec_launches_due_instances [OF c e n d lo hi, unfolded gs sv]
  have t: "expected_trace (1000 * time_Millisecond) 0 fixture_running fixture_games =
      [Launch ''C:/D2a'' [''-w''], Sleep 1000000000, Launch ''C:/D2a'' [''-w''],
       Sleep 1000000000, Launch ''C:/D2b'' [''-w'', ''-skiptobnet'']]"
    by (rule sym) (rule r [THEN conjunct1, rule_format, OF refl, THEN conjunct1])
  have s: "sint (1000 * time_Millisecond) = 1000000000"
    by (rule r [THEN conjunct2, THEN conjunct1])
  have p: "prefix (runningGames fixture_running)
     (runningGames (fixture_running\<lparr>runningGames :=
        [\<lparr>PID = 77, GameID = ''a''\<rparr>, \<lparr>PID = 0, GameID = ''a''\<rparr>,
         \<lparr>PID = 2, GameID = ''a''\<rparr>, \<lparr>PID = 4, GameID = ''b''\<rparr>]\<rparr>))"
    by (rule r [THEN conjunct2, THEN conjunct2, THEN conjunct1])
  have i: "expected_ids fixture_running fixture_games = [''a'', ''a'', ''b'']"
    by code_simp
  from c g e t i s p show ?thesis by (intro conjI)
qed

section \<open>The round trip through \<^verbatim>\<open>doPatch\<close>\<close>

text \<open>
  \<^verbatim>\<open>doPatch\<close> applies the actions it is given when it returns without error, provided
  the names of the actions are distinct, none is the \<^verbatim>\<open>.tmp\<close> name of another, no \<^verbatim>\<open>.tmp\<close>
  file of a download is there before, and the remote contents have the checksums of the
  manifest.
\<close>

lemma doPatch_applies_actions:
  assumes run: "doPatch E d acts remoteDir path = (None, d')"
    and dist: "distinct (map (\<lambda>a. Name (File a)) acts)"
    and coll: "\<forall>a \<in> set acts. \<forall>b \<in> set acts. Name (File a) \<noteq> Name (File b) @ ''.tmp''"
    and fresh: "\<forall>a \<in> set acts. Action a = ActionDownload \<longrightarrow>
                  lookup d path (Name (File a) @ ''.tmp'') = None"
    and crc: "\<forall>a \<in> set acts. Action a = ActionDownload \<longrightarrow>
                (\<forall>c. GetFile E (remoteDir @ ''/'' @ Name (File a)) = Inr c \<longrightarrow>
                     checksum E c = CRC (File a))"
  shows "actions_applied E path acts d d'"
proof -
  let ?dl = "filter (\<lambda>a. Action a = ActionDownload) acts"
  let ?names = "map (\<lambda>a. Name (File a)) ?dl"
  obtain res d1 where ph1: "doPatch_actions E remoteDir path acts [] d = (res, d1)"
    by (cases "doPatch_actions E remoteDir path acts [] d")
  with run obtain tmps where res: "res = Inr tmps"
    and ph2: "doPatch_renames E path tmps d1 = (None, d')"
    by (cases res) (auto simp: doPatch_def)
  from doPatch_actions_ok [OF ph1 [unfolded res] dist coll]
  have tmps: "tmps = map (\<lambda>n. n @ ''.tmp'') ?names"
    and got: "\<forall>a \<in> set acts. Action a = ActionDownload \<longrightarrow>
             (\<exists>c. GetFile E (remoteDir @ ''/'' @ Name (File a)) = Inr c \<and>
                  lookup d1 path (Name (File a) @ ''.tmp'') = Some c)"
    and gone: "\<forall>a \<in> set acts. Action a = ActionDelete \<longrightarrow> lookup d1 path (Name (File a)) = None"
    by (simp_all add: comp_def)
  have dn: "distinct ?names" using dist by (simp add: distinct_map_filter)
  have cn: "\<forall>n \<in> set ?names. \<forall>m \<in> set ?names. n \<noteq> m @ ''.tmp''"
    using coll by auto
  note fin = doPatch_renames_ok [OF ph2 [unfolded tmps] dn cn]
  have names: "\<And>a. a \<in> set acts \<Longrightarrow> Action a = ActionDownload \<Longrightarrow> Name (File a) \<in> set ?names"
    by auto
  have del_not_name: "Name (File a) \<notin> set ?names" if "a \<in> set acts" "Action a = ActionDelete" for a
  proof
    assume "Name (File a) \<in> set ?names"
    then obtain b where b: "b \<in> set acts" "Action b = ActionDownload" "Name (File b) = Name (File a)"
      by auto
    from dist have "inj_on (\<lambda>a. Name (File a)) (set acts)" by (simp add: distinct_map)
    from inj_onD [OF this b(3) b(1) that(1)] have "a = b" by simp
    with that(2) b(2) show False by simp
  qed
  have not_tmp: "Name (File a) \<notin> (\<lambda>m. m @ ''.tmp'') ` set ?names" if "a \<in> set acts" for a
    using coll that by auto
  have part1: "\<forall>a \<in> set acts.
         (case Action a of
            ActionDownload \<Rightarrow>
              (case lookup d' path (Name (File a)) of
                 None \<Rightarrow> False
               | Some c \<Rightarrow> checksum E c = CRC (File a))
          | ActionDelete \<Rightarrow> lookup d' path (Name (File a)) = None)"
  proof
    fix a assume a: "a \<in> set acts"
    show "(case Action a of
            ActionDownload \<Rightarrow>
              (case lookup d' path (Name (File a)) of
                 None \<Rightarrow> False
               | Some c \<Rightarrow> checksum E c = CRC (File a))
          | ActionDelete \<Rightarrow> lookup d' path (Name (File a)) = None)"
    proof (cases "Action a")
      case ActionDownload
      from got a ActionDownload obtain c where
        c: "GetFile E (remoteDir @ ''/'' @ Name (File a)) = Inr c"
           "lookup d1 path (Name (File a) @ ''.tmp'') = Some c"
        by blast
      from crc a ActionDownload c(1) have "checksum E c = CRC (File a)" by blast
      moreover have "lookup d' path (Name (File a)) = Some c"
        using fin [of "Name (File a)"] names [OF a ActionDownload] c(2) by simp
      ultimately show ?thesis using ActionDownload by simp
    next
      case ActionDelete
      have "lookup d' path (Name (File a)) = lookup d1 path (Name (File a))"
        using fin [of "Name (File a)"] del_not_name [OF a ActionDelete] not_tmp [OF a] by simp
      with gone a ActionDelete show ?thesis by simp
    qed
  qed
  have part2: "lookup d' path name = lookup d path name"
    if un: "\<forall>a \<in> set acts. name \<noteq> Name (File a)" for name
  proof (cases "name \<in> (\<lambda>m. m @ ''.tmp'') ` set ?names")
    case True
    then obtain a where a: "a \<in> set acts" "Action a = ActionDownload"
      "name = Name (File a) @ ''.tmp''"
      by auto
    have nn: "name \<notin> set ?names" using un by auto
    from fin [of name] True nn have "lookup d' path name = None" by simp
    with fresh a show ?thesis by simp
  next
    case False
    have nn: "name \<notin> set ?names" using un by auto
    from fin [of name] False nn have 1: "lookup d' path name = lookup d1 path name" by simp
    have 2: "lookup d1 path name = lookup d path name"
    proof (rule doPatch_actions_frame [OF ph1])
      show "\<forall>a \<in> set acts. Action a = ActionDownload \<longrightarrow> name \<noteq> Name (File a) @ ''.tmp''"
        using False by auto
      show "\<forall>a \<in> set acts. Action a = ActionDelete \<longrightarrow> name \<noteq> Name (File a)"
        using un by auto
    qed
    from 1 2 show ?thesis by simp
  qed
  show ?thesis
    unfolding actions_applied_def using part1 part2 by blast
qed

lemma getFilesToPatch_actions_distinct:
  assumes "getFilesToPatch E d files p ign = Inr (acts, n)" and "distinct (map Name files)"
  shows "distinct (map (\<lambda>a. Name (File a)) acts) \<and> File ` set acts \<subseteq> set files"
  using assms
proof (induction files arbitrary: acts n)
  case Nil
  then show ?case by (simp add: getFilesToPatch_Nil)
next
  case (Cons f files)
  note eq = getFilesToPatch_Cons [of E d f files p ign]
  note ent = getFilesToPatch_entries [OF Cons.prems(1)]
  from ent obtain a1 n1 where h: "getFilesToPatch E d [f] p ign = Inr (a1, n1)" by auto
  obtain a2 n2 where t: "getFilesToPatch E d files p ign = Inr (a2, n2)"
  proof (cases "getFilesToPatch E d files p ign")
    case (Inl e)
    with eq h Cons.prems(1) show ?thesis by (simp only: sum.case prod.case) simp
  next
    case (Inr r)
    with that show ?thesis by (cases r) blast
  qed
  have acts: "acts = a1 @ a2"
    using eq h t Cons.prems(1) by (simp only: sum.case prod.case) simp
  from Cons.prems(2) have dist: "distinct (map Name files)" and fn: "Name f \<notin> Name ` set files"
    by auto
  from Cons.IH [OF t dist] have d2: "distinct (map (\<lambda>a. Name (File a)) a2)"
    and s2: "File ` set a2 \<subseteq> set files" by auto
  have a1: "a1 = [] \<or> (\<exists>a. a1 = [a] \<and> File a = f)"
    using h by (auto simp: getFilesToPatch_single split: if_splits option.splits)
  from a1 d2 s2 fn acts show ?case by auto
qed

text \<open>
  The round trip with the code on both sides: the diff, \<^verbatim>\<open>doPatch\<close> on its actions, and
  the diff again, which has nothing left to do.
\<close>

lemma roundtrip_through_doPatch:
  assumes diff: "getFilesToPatch E d files d2path filesToIgnore = Inr (actions, totalLength)"
    and dist: "distinct (map Name files)"
    and coll: "\<forall>f \<in> set files. \<forall>g \<in> set files. Name f \<noteq> Name g @ ''.tmp''"
    and fresh: "\<forall>f \<in> set files. lookup d d2path (Name f @ ''.tmp'') = None"
    and crc: "\<forall>f \<in> set files. \<forall>c. GetFile E (remoteDir @ ''/'' @ Name f) = Inr c \<longrightarrow>
                checksum E c = CRC f"
    and run: "doPatch E d actions remoteDir d2path = (None, d')"
  shows "getFilesToPatch E d' files d2path filesToIgnore = Inr ([], 0)"
proof -
  from getFilesToPatch_actions_distinct [OF diff dist]
  have da: "distinct (map (\<lambda>a. Name (File a)) actions)" and sub: "File ` set actions \<subseteq> set files"
    by simp_all
  have app: "actions_applied E d2path actions d d'"
  proof (rule doPatch_applies_actions [OF run da])
    show "\<forall>a \<in> set actions. \<forall>b \<in> set actions. Name (File a) \<noteq> Name (File b) @ ''.tmp''"
      using coll sub by blast
    show "\<forall>a \<in> set actions. Action a = ActionDownload \<longrightarrow>
            lookup d d2path (Name (File a) @ ''.tmp'') = None"
      using fresh sub by blast
    show "\<forall>a \<in> set actions. Action a = ActionDownload \<longrightarrow>
            (\<forall>c. GetFile E (remoteDir @ ''/'' @ Name (File a)) = Inr c \<longrightarrow>
                 checksum E c = CRC (File a))"
      using crc sub by blast
  qed
  show ?thesis
  proof (rule getFilesToPatch_all_satisfied, rule ballI)
    fix f assume "f \<in> set files"
    with diff dist app show "getFilesToPatch E d' [f] d2path filesToIgnore = Inr ([], 0)"
      by (rule entry_satisfied_after_actions_applied)
  qed
qed

end
